theory Spec2Isabelle
  imports Complex_Main
begin

section \<open>Room templates and room instances (world.js, dungeonGen.js)\<close>

text \<open>
  A room template is the JSON object of a tile file. Optional members of the object are
  options: the source tests them with \<open>tile.size ? ... : ...\<close>, \<open>tile.collision || []\<close>
  and \<open>!tile.prefabs\<close>. Tile coordinates and sizes are JavaScript numbers holding
  integers, modelled as \<open>int\<close>. The \<open>exits\<close> object is the list of its entries in
  insertion order.
\<close>

record prefab =
  ptype :: string
  ppos :: "int \<times> int"
  pdir :: "string option"
  pid :: "string option"

record tile =
  tid :: string
  tsize :: "(int \<times> int) option"
  tstart :: bool
  texit :: bool
  collision :: "string list option"
  exits :: "(string \<times> (int \<times> int)) list"
  prefabs :: "prefab list option"

definition TILE_SIZE :: int where
  "TILE_SIZE = 64"

text \<open>
  Reading \<open>a[i]\<close> in JavaScript gives \<open>undefined\<close> when \<open>i\<close> is not an index of
  the array; \<open>None\<close> stands for that.
\<close>

definition js_nth :: "'a list \<Rightarrow> int \<Rightarrow> 'a option" where
  "js_nth xs i = (if 0 \<le> i \<and> i < int (length xs) then Some (xs ! nat i) else None)"

text \<open>
  A JavaScript \<open>Map\<close> keeps its entries in insertion order; \<open>set\<close> on a present key
  replaces the value in place.
\<close>

fun map_get :: "('k \<times> 'v) list \<Rightarrow> 'k \<Rightarrow> 'v option" where
  "map_get [] k = None"
| "map_get ((k', v) # m) k = (if k' = k then Some v else map_get m k)"

fun map_set :: "('k \<times> 'v) list \<Rightarrow> 'k \<Rightarrow> 'v \<Rightarrow> ('k \<times> 'v) list" where
  "map_set [] k v = [(k, v)]"
| "map_set ((k', v') # m) k v = (if k' = k then (k, v) # m else (k', v') # map_set m k v)"

text \<open>The positions of a list at which a test holds, in order.\<close>

definition indicesWhere :: "('a \<Rightarrow> bool) \<Rightarrow> 'a list \<Rightarrow> nat list" where
  "indicesWhere P xs = filter (\<lambda>i. P (xs ! i)) [0 ..< length xs]"

record WorldRoom =
  roomData :: tile
  worldX :: int
  worldY :: int
  roomX :: int
  roomY :: int
  tileWidth :: int
  tileHeight :: int
  collisionMap :: "bool list list"
  width :: int
  height :: int
  rexits :: "(string \<times> (int \<times> int)) list"
  isExit :: bool

text \<open>\<open>WorldRoom.createCollisionMap\<close>: the tile dimensions and the boolean wall map.\<close>

definition collisionOf :: "tile \<Rightarrow> string list" where
  "collisionOf rd = (case collision rd of None \<Rightarrow> [] | Some c \<Rightarrow> c)"

definition actualHeight :: "tile \<Rightarrow> int" where
  "actualHeight rd = int (length (collisionOf rd))"

definition actualWidth :: "tile \<Rightarrow> int" where
  "actualWidth rd =
     (if length (collisionOf rd) > 0 then int (length (collisionOf rd ! 0))
      else (case tsize rd of Some (w, h) \<Rightarrow> w | None \<Rightarrow> 4))"

definition tileHeightOf :: "tile \<Rightarrow> int" where
  "tileHeightOf rd =
     (if actualHeight rd \<noteq> 0 then actualHeight rd
      else (case tsize rd of Some (w, h) \<Rightarrow> h | None \<Rightarrow> 4))"

definition tileWidthOf :: "tile \<Rightarrow> int" where
  "tileWidthOf rd =
     (if actualWidth rd \<noteq> 0 then actualWidth rd
      else (case tsize rd of Some (w, h) \<Rightarrow> w | None \<Rightarrow> 4))"

definition collisionCell :: "string list \<Rightarrow> nat \<Rightarrow> nat \<Rightarrow> bool" where
  "collisionCell c y x =
     (if y < length c \<and> x < length (c ! y) then c ! y ! x = CHR ''#'' else False)"

definition createCollisionMap :: "tile \<Rightarrow> bool list list" where
  "createCollisionMap rd =
     map (\<lambda>y. map (\<lambda>x. collisionCell (collisionOf rd) y x) [0 ..< nat (tileWidthOf rd)])
       [0 ..< nat (tileHeightOf rd)]"

text \<open>\<open>WorldRoom.normalizeExits\<close> clamps every exit coordinate into the room.\<close>

definition normalizeExits ::
  "int \<Rightarrow> int \<Rightarrow> (string \<times> (int \<times> int)) list \<Rightarrow> (string \<times> (int \<times> int)) list" where
  "normalizeExits tw th es =
     map (\<lambda>(d, (px, py)). (d, (max 0 (min px (tw - 1)), max 0 (min py (th - 1))))) es"

text \<open>The constructor of \<open>WorldRoom\<close>. \<open>isExit\<close> is not set there, so it reads as false.\<close>

definition WorldRoom_new :: "tile \<Rightarrow> int \<Rightarrow> int \<Rightarrow> int \<Rightarrow> int \<Rightarrow> WorldRoom" where
  "WorldRoom_new rd wx wy rx ry =
     \<lparr> roomData = rd, worldX = wx, worldY = wy, roomX = rx, roomY = ry,
       tileWidth = tileWidthOf rd, tileHeight = tileHeightOf rd,
       collisionMap = createCollisionMap rd,
       width = tileWidthOf rd * TILE_SIZE, height = tileHeightOf rd * TILE_SIZE,
       rexits = normalizeExits (tileWidthOf rd) (tileHeightOf rd) (exits rd),
       isExit = False \<rparr>"

text \<open>
  \<open>WorldRoom.hasCollisionAt\<close>. The result is \<open>None\<close> when the read
  \<open>collisionMap[y][x]\<close> leaves the map (a TypeError on a missing row, \<open>undefined\<close> on a
  missing cell).
\<close>

definition hasCollisionAt :: "WorldRoom \<Rightarrow> int \<times> int \<Rightarrow> bool option" where
  "hasCollisionAt room localPos =
     (case localPos of (x, y) \<Rightarrow>
        if x < 0 \<or> x \<ge> tileWidth room \<or> y < 0 \<or> y \<ge> tileHeight room then Some True
        else (case js_nth (collisionMap room) y of
                None \<Rightarrow> None
              | Some row \<Rightarrow> js_nth row x))"

text \<open>
  The shape every room has after its constructor: \<open>tileHeight\<close> rows of \<open>tileWidth\<close>
  cells. The later edits of the map (doorway carving, procedural walls) assign single
  cells and keep it.
\<close>

definition wellShaped :: "WorldRoom \<Rightarrow> bool" where
  "wellShaped room \<longleftrightarrow>
     length (collisionMap room) = nat (tileHeight room) \<and>
     list_all (\<lambda>row. length row = nat (tileWidth room)) (collisionMap room)"

section \<open>Seeded random numbers (utils.js)\<close>

text \<open>
  \<open>SeededRandom\<close> keeps an integer state. \<open>%\<close> is the remainder of the truncating
  division. \<open>random()\<close> returns the double \<open>(seed - 1) / 2147483646\<close> and \<open>randomInt\<close>
  returns \<open>floor(random() * (max - min)) + min\<close>; the model computes that floor on the
  exact quotient, where the source rounds the quotient and the product to doubles first.
\<close>

definition js_rem :: "int \<Rightarrow> int \<Rightarrow> int" where
  "js_rem a b = (if a \<ge> 0 then a mod \<bar>b\<bar> else - ((- a) mod \<bar>b\<bar>))"

definition SeededRandom_new :: "int \<Rightarrow> int" where
  "SeededRandom_new s =
     (let r = js_rem s 2147483647 in if r \<le> 0 then r + 2147483646 else r)"

definition nextSeed :: "int \<Rightarrow> int" where
  "nextSeed st = js_rem (st * 16807) 2147483647"

definition randomInt :: "int \<Rightarrow> int \<Rightarrow> int \<Rightarrow> int \<times> int" where
  "randomInt lo hi st =
     (let st' = nextSeed st in (((st' - 1) * (hi - lo)) div 2147483646 + lo, st'))"

definition choice :: "'a list \<Rightarrow> int \<Rightarrow> 'a option \<times> int" where
  "choice array st =
     (if length array = 0 then (None, st)
      else (case randomInt 0 (int (length array)) st of (i, st') \<Rightarrow> (js_nth array i, st')))"

text \<open>
  \<open>array.splice(i, 1)[0]\<close>: the element removed and the array left. A negative index
  counts from the end.
\<close>

definition splice1 :: "'a list \<Rightarrow> int \<Rightarrow> 'a option \<times> 'a list" where
  "splice1 xs i =
     (let n = int (length xs);
          k = (if i < 0 then max (n + i) 0 else min i n)
      in if k < n then (Some (xs ! nat k), take (nat k) xs @ drop (Suc (nat k)) xs)
         else (None, xs))"

section \<open>World graph builder (world.js)\<close>

text \<open>
  The two maps \<open>rooms\<close> and \<open>roomGrid\<close> of the manager are written together by
  \<open>createRoom\<close> and hold the same room objects under the same keys; they are one
  association list here, in insertion order, keyed by the grid coordinates that the key
  string \<open>x,y\<close> names. \<open>startRoom\<close> and \<open>currentRoom\<close> refer to a room by its key. The
  catalog of the tile loader is a parameter, the list that \<open>getAllTiles\<close> returns.
\<close>

record LevelConstraints =
  maxRooms :: int
  maxExits :: int
  maxWidth :: int
  maxHeight :: int
  minRooms :: int

record LevelBounds =
  minX :: int
  maxX :: int
  minY :: int
  maxY :: int

record WorldManager =
  rng :: int
  rooms :: "((int \<times> int) \<times> WorldRoom) list"
  seed :: int
  startRoom :: "(int \<times> int) option"
  currentRoom :: "(int \<times> int) option"
  levelConstraints :: LevelConstraints
  generatedRooms :: int
  exitRoomsGenerated :: int
  levelBounds :: LevelBounds
  levelComplete :: bool

definition adjustConstraintsForLevel :: "int \<Rightarrow> WorldManager \<Rightarrow> WorldManager" where
  "adjustConstraintsForLevel levelNumber wm =
     (let c = \<lparr> maxRooms = min (6 + levelNumber div 2) 15, maxExits = 1,
                 maxWidth = min (3 + levelNumber div 3) 5,
                 maxHeight = min (3 + levelNumber div 3) 5,
                 minRooms = min (4 + levelNumber div 4) 8 \<rparr>
      in wm\<lparr>levelConstraints := c,
            levelBounds := \<lparr> minX = 0, maxX = maxWidth c - 1, minY = 0, maxY = maxHeight c - 1 \<rparr>\<rparr>)"

definition getRoom :: "WorldManager \<Rightarrow> int \<Rightarrow> int \<Rightarrow> WorldRoom option" where
  "getRoom wm x y = map_get (rooms wm) (x, y)"

definition isWithinLevelBounds :: "WorldManager \<Rightarrow> int \<Rightarrow> int \<Rightarrow> bool" where
  "isWithinLevelBounds wm x y \<longleftrightarrow>
     x \<ge> minX (levelBounds wm) \<and> x \<le> maxX (levelBounds wm) \<and>
     y \<ge> minY (levelBounds wm) \<and> y \<le> maxY (levelBounds wm)"

definition createRoom :: "tile \<Rightarrow> int \<Rightarrow> int \<Rightarrow> int \<Rightarrow> int \<Rightarrow> WorldManager \<Rightarrow> WorldManager" where
  "createRoom rd wx wy x y wm =
     wm\<lparr>rooms := map_set (rooms wm) (x, y) (WorldRoom_new rd wx wy x y)\<rparr>"

text \<open>
  \<open>generateStartRoom\<close>. \<open>choice\<close> gives \<open>undefined\<close> when the random index is outside
  the array; the constructor of the room then throws in \<open>deepClone\<close>.
\<close>

definition generateStartRoom :: "tile list \<Rightarrow> WorldManager \<Rightarrow> string + WorldManager" where
  "generateStartRoom catalog wm =
     (let startTiles = filter tstart catalog in
      if length startTiles = 0 then Inr wm
      else (case choice startTiles (rng wm) of
              (None, st) \<Rightarrow> Inl ''SyntaxError: undefined is not valid JSON''
            | (Some startTile, st) \<Rightarrow>
                Inr ((createRoom startTile 0 0 0 0 (wm\<lparr>rng := st\<rparr>))
                       \<lparr>startRoom := Some (0, 0), currentRoom := Some (0, 0)\<rparr>)))"

definition adjacent4 :: "int \<times> int \<Rightarrow> (int \<times> int) list" where
  "adjacent4 p = [(fst p, snd p - 1), (fst p, snd p + 1), (fst p + 1, snd p), (fst p - 1, snd p)]"

definition getValidAdjacentPositions ::
  "WorldManager \<Rightarrow> int \<times> int \<Rightarrow> (int \<times> int) list \<Rightarrow> (int \<times> int) list" where
  "getValidAdjacentPositions wm currentPos generatedPositions =
     filter (\<lambda>pos. pos \<notin> set generatedPositions \<and> isWithinLevelBounds wm (fst pos) (snd pos)
                  \<and> getRoom wm (fst pos) (snd pos) = None)
       (adjacent4 currentPos)"

definition hasAdjacentRoom :: "WorldManager \<Rightarrow> int \<Rightarrow> int \<Rightarrow> bool" where
  "hasAdjacentRoom wm x y \<longleftrightarrow>
     list_ex (\<lambda>pos. getRoom wm (fst pos) (snd pos) \<noteq> None) (adjacent4 (x, y))"

text \<open>
  \<open>getRequiredConnections\<close>: the directions in which a placed neighbour has the exit that
  faces this cell.
\<close>

definition getRequiredConnections :: "WorldManager \<Rightarrow> int \<Rightarrow> int \<Rightarrow> string list" where
  "getRequiredConnections wm x y =
     map (\<lambda>(dx, dy, d, opposite). d)
       (filter (\<lambda>(dx, dy, d, opposite).
                  case getRoom wm (x + dx) (y + dy) of
                    None \<Rightarrow> False
                  | Some adjRoom \<Rightarrow> map_get (rexits adjRoom) opposite \<noteq> None)
          [(0, - 1, ''N'', ''S''), (0, 1, ''S'', ''N''), (1, 0, ''E'', ''W''), (- 1, 0, ''W'', ''E'')])"

definition findSuitableTiles :: "tile list \<Rightarrow> string list \<Rightarrow> bool \<Rightarrow> tile list" where
  "findSuitableTiles catalog requiredConnections allowExit =
     filter (\<lambda>t. \<not> tstart t \<and> \<not> (texit t \<and> \<not> allowExit)
                \<and> list_all (\<lambda>d. d \<in> set (map fst (exits t))) requiredConnections)
       catalog"

definition getAverageRoomWidth :: "WorldManager \<Rightarrow> int" where
  "getAverageRoomWidth wm =
     (if length (rooms wm) = 0 then 6 * TILE_SIZE
      else sum_list (map (\<lambda>(k, r). width r) (rooms wm)) div int (length (rooms wm)))"

definition getAverageRoomHeight :: "WorldManager \<Rightarrow> int" where
  "getAverageRoomHeight wm =
     (if length (rooms wm) = 0 then 6 * TILE_SIZE
      else sum_list (map (\<lambda>(k, r). height r) (rooms wm)) div int (length (rooms wm)))"

text \<open>
  \<open>calculateRoomWorldPosition\<close>: the widths of the rooms to the left in the row, the
  heights of the rooms above in the column, the average for a missing room.
\<close>

definition calculateRoomWorldPosition :: "WorldManager \<Rightarrow> int \<Rightarrow> int \<Rightarrow> int \<times> int" where
  "calculateRoomWorldPosition wm x y =
     (let wX = sum_list (map (\<lambda>i. case getRoom wm i y of
                                   Some leftRoom \<Rightarrow> width leftRoom
                                 | None \<Rightarrow> getAverageRoomWidth wm) [0 .. x - 1]);
          wY = sum_list (map (\<lambda>j. case getRoom wm x j of
                                   Some topRoom \<Rightarrow> height topRoom
                                 | None \<Rightarrow> getAverageRoomHeight wm) [0 .. y - 1]);
          wX' = (if x < 0 then 0 else wX);
          wY' = (if y < 0 then 0 else wY)
      in (max 0 wX', max 0 wY'))"

definition adjustAllRoomsPosition :: "int \<Rightarrow> int \<Rightarrow> WorldManager \<Rightarrow> WorldManager" where
  "adjustAllRoomsPosition offsetX offsetY wm =
     (if offsetX = 0 \<and> offsetY = 0 then wm
      else wm\<lparr>rooms := map (\<lambda>(k, r). (k, r\<lparr>worldX := worldX r + offsetX,
                                           worldY := worldY r + offsetY\<rparr>)) (rooms wm)\<rparr>)"

text \<open>
  \<open>validateRoomPosition\<close>, one round of its loop over the placed rooms. The bounds
  \<open>proposedBounds\<close> are those of the position the function was called with; the position
  \<open>(wX, wY)\<close> is what the rounds so far have made of it.
\<close>

definition validateStep ::
  "int \<times> int \<times> int \<times> int \<Rightarrow> int \<Rightarrow> int \<Rightarrow> int \<Rightarrow> int \<Rightarrow> int \<times> int \<Rightarrow> WorldRoom \<Rightarrow> int \<times> int" where
  "validateStep proposedBounds roomWidth roomHeight x y w room =
     (case proposedBounds of (pLeft, pRight, pTop, pBottom) \<Rightarrow>
      case w of (wX, wY) \<Rightarrow>
        if roomX room = x \<and> roomY room = y then (wX, wY)
        else
          (let bLeft = worldX room; bRight = worldX room + width room;
               bTop = worldY room; bBottom = worldY room + height room;
               overlapLeft = max 0 (min pRight bRight - max pLeft bLeft);
               overlapTop = max 0 (min pBottom bBottom - max pTop bTop)
           in if overlapLeft > 0 \<and> overlapTop > 0 then
                (let isAdjacentHorizontally = (\<bar>roomX room - x\<bar> = 1 \<and> roomY room = y);
                     isAdjacentVertically = (\<bar>roomY room - y\<bar> = 1 \<and> roomX room = x)
                 in if isAdjacentHorizontally \<or> isAdjacentVertically then
                      (let wX1 = (if isAdjacentHorizontally \<and> overlapLeft \<noteq> TILE_SIZE
                                  then (if roomX room < x then bRight - TILE_SIZE
                                        else bLeft + TILE_SIZE - roomWidth)
                                  else wX);
                           wY1 = (if isAdjacentVertically \<and> overlapTop \<noteq> TILE_SIZE
                                  then (if roomY room < y then bBottom - TILE_SIZE
                                        else bTop + TILE_SIZE - roomHeight)
                                  else wY)
                       in (wX1, wY1))
                    else
                      (if pLeft < bRight \<and> pRight > bLeft then bRight else wX,
                       if pTop < bBottom \<and> pBottom > bTop then bBottom else wY))
              else (wX, wY)))"

definition validateRoomPosition ::
  "WorldManager \<Rightarrow> int \<Rightarrow> int \<Rightarrow> int \<Rightarrow> int \<Rightarrow> int \<Rightarrow> int \<Rightarrow> int \<times> int" where
  "validateRoomPosition wm wX wY roomWidth roomHeight x y =
     foldl (validateStep (wX, wX + roomWidth, wY, wY + roomHeight) roomWidth roomHeight x y)
       (wX, wY) (map snd (rooms wm))"

text \<open>
  \<open>calculateOptimalRoomPosition\<close> returns the position and the manager, whose rooms it
  may have shifted.
\<close>

definition calculateOptimalRoomPosition ::
  "WorldManager \<Rightarrow> int \<Rightarrow> int \<Rightarrow> tile \<Rightarrow> (int \<times> int) \<times> WorldManager" where
  "calculateOptimalRoomPosition wm x y rd =
     (let roomWidth = (case tsize rd of Some (w, h) \<Rightarrow> w | None \<Rightarrow> 6) * TILE_SIZE;
          roomHeight = (case tsize rd of Some (w, h) \<Rightarrow> h | None \<Rightarrow> 6) * TILE_SIZE;
          wX = (case getRoom wm (x - 1) y of
                  Some west \<Rightarrow> worldX west + width west - TILE_SIZE
                | None \<Rightarrow>
                    (case getRoom wm (x + 1) y of
                       Some east \<Rightarrow> worldX east + TILE_SIZE - roomWidth
                     | None \<Rightarrow> fst (calculateRoomWorldPosition wm x y)));
          wY = (case getRoom wm x (y - 1) of
                  Some north \<Rightarrow> worldY north + height north - TILE_SIZE
                | None \<Rightarrow>
                    (case getRoom wm x (y + 1) of
                       Some south \<Rightarrow> worldY south + TILE_SIZE - roomHeight
                     | None \<Rightarrow> snd (calculateRoomWorldPosition wm x y)));
          wm1 = (if wX < 0 then adjustAllRoomsPosition (0 - wX) 0 wm else wm);
          wX1 = (if wX < 0 then 0 else wX);
          wm2 = (if wY < 0 then adjustAllRoomsPosition 0 (0 - wY) wm1 else wm1);
          wY1 = (if wY < 0 then 0 else wY)
      in (validateRoomPosition wm2 wX1 wY1 roomWidth roomHeight x y, wm2))"

text \<open>
  \<open>generateRoomAt\<close> returns whether a room was placed, and the manager. With a random
  index outside the array \<open>choice\<close> gives \<open>undefined\<close>, whose \<open>size\<close> is then read.
\<close>

definition generateRoomAt ::
  "tile list \<Rightarrow> int \<Rightarrow> int \<Rightarrow> WorldManager \<Rightarrow> string + (bool \<times> WorldManager)" where
  "generateRoomAt catalog x y wm =
     (if getRoom wm x y \<noteq> None then Inr (False, wm)
      else if \<not> isWithinLevelBounds wm x y then Inr (False, wm)
      else if generatedRooms wm \<ge> maxRooms (levelConstraints wm) - 1 then Inr (False, wm)
      else
        (let suitableTiles = findSuitableTiles catalog (getRequiredConnections wm x y) False in
         if length suitableTiles = 0 then Inr (False, wm)
         else (case choice suitableTiles (rng wm) of
                 (None, st) \<Rightarrow> Inl ''TypeError: roomData is undefined''
               | (Some chosenTile, st) \<Rightarrow>
                   (case calculateOptimalRoomPosition (wm\<lparr>rng := st\<rparr>) x y chosenTile of
                      ((wX, wY), wm1) \<Rightarrow>
                        Inr (True, (createRoom chosenTile wX wY x y wm1)
                                     \<lparr>generatedRooms := generatedRooms wm1 + 1\<rparr>)))))"

text \<open>
  The inner loop of \<open>generateFiniteLevel\<close>: up to \<open>roomsToAdd\<close> rounds, each taking a
  random one of the remaining adjacent positions. The state is the manager, the
  generation queue and the generated positions.
\<close>

fun addRooms ::
  "tile list \<Rightarrow> nat \<Rightarrow> (int \<times> int) list
     \<Rightarrow> WorldManager \<times> (int \<times> int) list \<times> (int \<times> int) list
     \<Rightarrow> string + (WorldManager \<times> (int \<times> int) list \<times> (int \<times> int) list)" where
  "addRooms catalog 0 adjacentPositions st = Inr st"
| "addRooms catalog (Suc n) adjacentPositions st =
     (case st of (wm, generationQueue, generatedPositions) \<Rightarrow>
        if length adjacentPositions = 0 then Inr st
        else
          (case randomInt 0 (int (length adjacentPositions)) (rng wm) of (posIndex, r) \<Rightarrow>
             (case splice1 adjacentPositions posIndex of
                (None, rest) \<Rightarrow> Inl ''TypeError: newPos is undefined''
              | (Some newPos, rest) \<Rightarrow>
                  (case generateRoomAt catalog (fst newPos) (snd newPos) (wm\<lparr>rng := r\<rparr>) of
                     Inl e \<Rightarrow> Inl e
                   | Inr (placed, wm') \<Rightarrow>
                       addRooms catalog n rest
                         (if placed
                          then (wm', generationQueue @ [newPos], generatedPositions @ [newPos])
                          else (wm', generationQueue, generatedPositions))))))"

text \<open>
  What a call of \<open>generateRoomAt\<close> and a run of the inner loop do to the counters: a
  room is placed only below the room limit, and each placed room is one more in the count
  and in the queue. The outer loop terminates by this.
\<close>

lemma generateRoomAt_count:
  assumes "generateRoomAt catalog x y wm = Inr (placed, wm')"
  shows "levelConstraints wm' = levelConstraints wm"
    and "generatedRooms wm' = generatedRooms wm + (if placed then 1 else 0)"
    and "placed \<Longrightarrow> generatedRooms wm < maxRooms (levelConstraints wm) - 1"
  using assms
  by (auto simp: generateRoomAt_def Let_def calculateOptimalRoomPosition_def createRoom_def
      adjustAllRoomsPosition_def split: if_splits prod.splits option.splits)

lemma addRooms_measure:
  assumes "addRooms catalog n adj (wm, q, gp) = Inr (wm', q', gp')"
    and "generatedRooms wm \<le> maxRooms (levelConstraints wm) - 1"
  shows "levelConstraints wm' = levelConstraints wm
      \<and> generatedRooms wm' \<le> maxRooms (levelConstraints wm) - 1
      \<and> generatedRooms wm \<le> generatedRooms wm'
      \<and> int (length q') = int (length q) + (generatedRooms wm' - generatedRooms wm)"
  using assms
proof (induction n arbitrary: adj wm q gp)
  case 0
  then show ?case by simp
next
  case (Suc n)
  show ?case
  proof (cases "length adj = 0")
    case True
    with Suc.prems show ?thesis by simp
  next
    case False
    obtain posIndex r where ri: "randomInt 0 (int (length adj)) (rng wm) = (posIndex, r)"
      by (cases "randomInt 0 (int (length adj)) (rng wm)")
    obtain np rest where sp: "splice1 adj posIndex = (np, rest)"
      by (cases "splice1 adj posIndex")
    from Suc.prems(1) False ri sp obtain newPos where np: "np = Some newPos"
      by (cases np) auto
    from Suc.prems(1) False ri sp np obtain placed wm1 where
      g: "generateRoomAt catalog (fst newPos) (snd newPos) (wm\<lparr>rng := r\<rparr>) = Inr (placed, wm1)"
      by (cases "generateRoomAt catalog (fst newPos) (snd newPos) (wm\<lparr>rng := r\<rparr>)") auto
    note gc = generateRoomAt_count [OF g]
    from Suc.prems(1) False ri sp np g have rec:
      "addRooms catalog n rest
         (if placed then (wm1, q @ [newPos], gp @ [newPos]) else (wm1, q, gp)) = Inr (wm', q', gp')"
      by simp
    show ?thesis
    proof (cases placed)
      case True
      with rec have "addRooms catalog n rest (wm1, q @ [newPos], gp @ [newPos]) = Inr (wm', q', gp')"
        by simp
      from Suc.IH [OF this] gc True Suc.prems(2) show ?thesis by simp
    next
      case False
      with rec have "addRooms catalog n rest (wm1, q, gp) = Inr (wm', q', gp')"
        by simp
      from Suc.IH [OF this] gc False Suc.prems(2) show ?thesis by simp
    qed
  qed
qed

text \<open>
  The \<open>while\<close> loop of \<open>generateFiniteLevel\<close>. The bound \<open>roomsToGenerate\<close> is
  \<open>maxRooms - 1\<close>, read before the loop; the constraints do not change in the loop.
\<close>

function generationLoop ::
  "tile list \<Rightarrow> WorldManager \<times> (int \<times> int) list \<times> (int \<times> int) list \<Rightarrow> string + WorldManager" where
  "generationLoop catalog st =
     (case st of (wm, generationQueue, generatedPositions) \<Rightarrow>
        if generatedRooms wm < maxRooms (levelConstraints wm) - 1 \<and> length generationQueue > 0
        then
          (let currentPos = hd generationQueue;
               adjacentPositions = getValidAdjacentPositions wm currentPos generatedPositions
           in case randomInt 1 3 (rng wm) of (k, r) \<Rightarrow>
                (let roomsToAdd =
                       min k (min (maxRooms (levelConstraints wm) - 1 - generatedRooms wm)
                                (int (length adjacentPositions)))
                 in case addRooms catalog (nat roomsToAdd) adjacentPositions
                           (wm\<lparr>rng := r\<rparr>, tl generationQueue, generatedPositions) of
                      Inl e \<Rightarrow> Inl e
                    | Inr st' \<Rightarrow> generationLoop catalog st'))
        else Inr wm)"
  by pat_completeness auto
termination
proof (relation "measure (\<lambda>(catalog, (wm, q, gp)).
    nat (2 * (maxRooms (levelConstraints wm) - 1 - generatedRooms wm)) + length q)",
    goal_cases)
  case 1
  show ?case by simp
next
  case (2 catalog st wm qgp q gp currentPos adj k r roomsToAdd st')
  obtain wm' q' gp' where st': "st' = (wm', q', gp')" by (cases st') auto
  from 2(8) st' have a: "addRooms catalog (nat roomsToAdd) adj (wm\<lparr>rng := r\<rparr>, tl q, gp)
      = Inr (wm', q', gp')" by simp
  from 2(3) have c: "generatedRooms wm < maxRooms (levelConstraints wm) - 1" "length q > 0"
    by simp_all
  from addRooms_measure [OF a] c(1)
  have m: "levelConstraints wm' = levelConstraints wm"
    "generatedRooms wm' \<le> maxRooms (levelConstraints wm) - 1"
    "generatedRooms wm \<le> generatedRooms wm'"
    "int (length q') = int (length (tl q)) + (generatedRooms wm' - generatedRooms wm)"
    by simp_all
  from c(2) have "int (length (tl q)) = int (length q) - 1" by (cases q) simp_all
  with m c 2(1,2) st' show ?case by auto
qed

text \<open>\<open>ensureMinimumRooms\<close>: the top-up loop, and the scan for its positions.\<close>

fun topUp :: "tile list \<Rightarrow> nat \<Rightarrow> (int \<times> int) list \<Rightarrow> WorldManager \<Rightarrow> string + WorldManager" where
  "topUp catalog 0 availablePositions wm = Inr wm"
| "topUp catalog (Suc n) availablePositions wm =
     (if length availablePositions = 0 then Inr wm
      else
        (case randomInt 0 (int (length availablePositions)) (rng wm) of (posIndex, r) \<Rightarrow>
           (case splice1 availablePositions posIndex of
              (None, rest) \<Rightarrow> Inl ''TypeError: pos is undefined''
            | (Some pos, rest) \<Rightarrow>
                (case generateRoomAt catalog (fst pos) (snd pos) (wm\<lparr>rng := r\<rparr>) of
                   Inl e \<Rightarrow> Inl e
                 | Inr (placed, wm') \<Rightarrow> topUp catalog n rest wm'))))"

definition availablePositions :: "WorldManager \<Rightarrow> (int \<times> int) list" where
  "availablePositions wm =
     concat (map (\<lambda>x. map (\<lambda>y. (x, y))
                         (filter (\<lambda>y. getRoom wm x y = None \<and> hasAdjacentRoom wm x y)
                            [minY (levelBounds wm) .. maxY (levelBounds wm)]))
               [minX (levelBounds wm) .. maxX (levelBounds wm)])"

definition ensureMinimumRooms :: "tile list \<Rightarrow> WorldManager \<Rightarrow> string + WorldManager" where
  "ensureMinimumRooms catalog wm =
     (let totalRooms = generatedRooms wm + 1 in
      if totalRooms < minRooms (levelConstraints wm)
      then topUp catalog (nat (minRooms (levelConstraints wm) - totalRooms))
             (availablePositions wm) wm
      else Inr wm)"

text \<open>
  \<open>generateExitRoom\<close>: the scan keeps the position in \<open>rooms\<close> of the first room whose
  distance exceeds the best so far, starting from \<open>-1\<close>.
\<close>

definition exitStep :: "nat option \<times> int \<Rightarrow> nat \<times> WorldRoom \<Rightarrow> nat option \<times> int" where
  "exitStep best ir =
     (let d = \<bar>roomX (snd ir)\<bar> + \<bar>roomY (snd ir)\<bar> in
      if d > snd best then (Some (fst ir), d) else best)"

definition generateExitRoom :: "WorldManager \<Rightarrow> WorldManager" where
  "generateExitRoom wm =
     (if exitRoomsGenerated wm \<ge> maxExits (levelConstraints wm) then wm
      else if length (rooms wm) = 0 then wm
      else
        (case fst (foldl exitStep (None, - 1)
                     (zip [0 ..< length (rooms wm)] (map snd (rooms wm)))) of
           None \<Rightarrow> wm
         | Some i \<Rightarrow>
             wm\<lparr>rooms := (rooms wm)[i :=
                    (fst (rooms wm ! i),
                     (snd (rooms wm ! i))\<lparr>isExit := True,
                         roomData := (roomData (snd (rooms wm ! i)))\<lparr>texit := True\<rparr>\<rparr>)],
                 exitRoomsGenerated := exitRoomsGenerated wm + 1\<rparr>))"

definition generateFiniteLevel :: "tile list \<Rightarrow> WorldManager \<Rightarrow> string + WorldManager" where
  "generateFiniteLevel catalog wm =
     (case generateStartRoom catalog wm of
        Inl e \<Rightarrow> Inl e
      | Inr wm1 \<Rightarrow>
          (case generationLoop catalog (wm1, [(0, 0)], [(0, 0)]) of
             Inl e \<Rightarrow> Inl e
           | Inr wm2 \<Rightarrow>
               (case ensureMinimumRooms catalog wm2 of
                  Inl e \<Rightarrow> Inl e
                | Inr wm3 \<Rightarrow> Inr (generateExitRoom wm3))))"

text \<open>\<open>WorldManager.initialize(seed, levelNumber)\<close>.\<close>

definition WorldManager_initialize ::
  "tile list \<Rightarrow> int \<Rightarrow> int \<Rightarrow> WorldManager \<Rightarrow> string + WorldManager" where
  "WorldManager_initialize catalog s levelNumber wm =
     generateFiniteLevel catalog
       ((adjustConstraintsForLevel levelNumber (wm\<lparr>seed := s, rng := SeededRandom_new s\<rparr>))
          \<lparr>rooms := [], generatedRooms := 0, exitRoomsGenerated := 0, levelComplete := False\<rparr>)"

section \<open>Tile catalog: validation and repair (dungeonGen.js)\<close>

text \<open>
  A TypeError of the source (a member read on \<open>undefined\<close>) is \<open>Inl\<close> of a message.
  Array reads follow JavaScript: an index outside the array reads \<open>undefined\<close>, which
  compares unequal to every character.
\<close>

definition cellAt :: "string list \<Rightarrow> int \<Rightarrow> int \<Rightarrow> char option" where
  "cellAt c x y = (case js_nth c y of None \<Rightarrow> None | Some row \<Rightarrow> js_nth row x)"

definition occupied :: "prefab list \<Rightarrow> int \<Rightarrow> int \<Rightarrow> bool" where
  "occupied ps x y \<longleftrightarrow> (\<exists>p \<in> set ps. fst (ppos p) = x \<and> snd (ppos p) = y)"

definition prefabsOf :: "tile \<Rightarrow> prefab list" where
  "prefabsOf t = (case prefabs t of None \<Rightarrow> [] | Some ps \<Rightarrow> ps)"

text \<open>
  \<open>findSafePositions(tile, count)\<close>: the interior cells (the outer ring of the size is
  avoided), row by row, that are floor and carry no prefab; the first \<open>count\<close> of them.
\<close>

definition safeCell :: "tile \<Rightarrow> int \<Rightarrow> int \<Rightarrow> bool" where
  "safeCell t x y \<longleftrightarrow>
     y < int (length (collisionOf t)) \<and> x < int (length (collisionOf t ! nat y)) \<and>
     cellAt (collisionOf t) x y = Some CHR ''.'' \<and> \<not> occupied (prefabsOf t) x y"

definition interiorCells :: "int \<Rightarrow> int \<Rightarrow> (int \<times> int) list" where
  "interiorCells w h = concat (map (\<lambda>y. map (\<lambda>x. (x, y)) [1 .. w - 2]) [1 .. h - 2])"

definition allSafePositions :: "tile \<Rightarrow> int \<Rightarrow> int \<Rightarrow> (int \<times> int) list" where
  "allSafePositions t w h = filter (\<lambda>(x, y). safeCell t x y) (interiorCells w h)"

definition findSafePositions :: "tile \<Rightarrow> nat \<Rightarrow> string + (int \<times> int) list" where
  "findSafePositions t n =
     (case tsize t of
        None \<Rightarrow> Inl ''TypeError: tile.size is undefined''
      | Some (w, h) \<Rightarrow> Inr (take n (allSafePositions t w h)))"

text \<open>Decimal digits of a number, for the ids of the prefabs that the repair adds.\<close>

fun showNat :: "nat \<Rightarrow> string" where
  "showNat n =
     (if n < 10 then [char_of (48 + n)] else showNat (n div 10) @ [char_of (48 + n mod 10)])"

declare showNat.simps [simp del]

definition isLaserPrefab :: "prefab \<Rightarrow> bool" where
  "isLaserPrefab p \<longleftrightarrow> ptype p = ''LaserEmitter''"

definition isCellPrefab :: "prefab \<Rightarrow> bool" where
  "isCellPrefab p \<longleftrightarrow> ptype p = ''PowerCell''"

definition newPowerCell :: "tile \<Rightarrow> nat \<Rightarrow> nat \<Rightarrow> int \<times> int \<Rightarrow> prefab" where
  "newPowerCell t nCells i pos =
     \<lparr> ptype = ''PowerCell'', ppos = pos, pdir = None,
       pid = Some (''auto_cell_'' @ tid t @ ''_'' @ showNat (i + nCells + 1)) \<rparr>"

text \<open>
  \<open>addPowerCellsToMatch\<close>: one new cell for each of the first \<open>needed\<close> safe positions,
  as many as there are.
\<close>

definition addPowerCellsToMatch :: "tile \<Rightarrow> nat \<Rightarrow> nat \<Rightarrow> string + tile" where
  "addPowerCellsToMatch t nLasers nCells =
     (case findSafePositions t (nLasers - nCells) of
        Inl e \<Rightarrow> Inl e
      | Inr safePositions \<Rightarrow>
          Inr (t\<lparr>prefabs := Some (prefabsOf t @
                 map (\<lambda>(i, pos). newPowerCell t nCells i pos)
                   (zip [0 ..< length safePositions] safePositions))\<rparr>))"

text \<open>
  \<open>getBestLaserDirection\<close> compares the offsets from the centre \<open>size / 2\<close>; the model
  compares the doubled offsets, which are integers.
\<close>

definition getBestLaserDirection :: "int \<times> int \<Rightarrow> int \<times> int \<Rightarrow> string" where
  "getBestLaserDirection sz pos =
     (let dx2 = fst sz - 2 * fst pos; dy2 = snd sz - 2 * snd pos in
      if \<bar>dx2\<bar> > \<bar>dy2\<bar> then (if dx2 > 0 then ''E'' else ''W'')
      else (if dy2 > 0 then ''S'' else ''N''))"

definition newLaser :: "tile \<Rightarrow> int \<times> int \<Rightarrow> nat \<Rightarrow> nat \<Rightarrow> int \<times> int \<Rightarrow> prefab" where
  "newLaser t sz nLasers i pos =
     \<lparr> ptype = ''LaserEmitter'', ppos = pos, pdir = Some (getBestLaserDirection sz pos),
       pid = Some (''auto_emitter_'' @ tid t @ ''_'' @ showNat (i + nLasers + 1)) \<rparr>"

definition addLasersToMatch :: "tile \<Rightarrow> nat \<Rightarrow> nat \<Rightarrow> string + tile" where
  "addLasersToMatch t nLasers nCells =
     (case findSafePositions t (nCells - nLasers) of
        Inl e \<Rightarrow> Inl e
      | Inr safePositions \<Rightarrow>
          (case tsize t of
             None \<Rightarrow> Inl ''TypeError: tile.size is undefined''
           | Some sz \<Rightarrow>
               Inr (t\<lparr>prefabs := Some (prefabsOf t @
                      map (\<lambda>(i, pos). newLaser t sz nLasers i pos)
                        (zip [0 ..< length safePositions] safePositions))\<rparr>)))"

text \<open>
  \<open>findSafePositionNear\<close>: the target itself when it is floor and free, else \<open>null\<close>.
  A negative row index passes the test \<open>targetY < collision.length\<close> and then reads
  \<open>.length\<close> of \<open>undefined\<close>.
\<close>

definition findSafePositionNear ::
  "string list \<Rightarrow> prefab list \<Rightarrow> int \<Rightarrow> int \<Rightarrow> string + (int \<times> int) option" where
  "findSafePositionNear c ps targetX targetY =
     (if targetY < int (length c) then
        (case js_nth c targetY of
           None \<Rightarrow> Inl ''TypeError: collision[targetY] is undefined''
         | Some row \<Rightarrow>
             if targetX < int (length row) \<and> js_nth row targetX = Some CHR ''.''
                \<and> \<not> occupied ps targetX targetY
             then Inr (Some (targetX, targetY)) else Inr None)
      else Inr None)"

text \<open>
  \<open>alignLasersAndPowerCells\<close>, one round of its loop: the \<open>i\<close>-th laser and the \<open>i\<close>-th
  power cell of the prefab list, given by their positions \<open>li\<close> and \<open>ci\<close> in it.
\<close>

definition alignStep :: "string list \<Rightarrow> nat \<times> nat \<Rightarrow> prefab list \<Rightarrow> string + prefab list" where
  "alignStep c lc ps =
     (case lc of (li, ci) \<Rightarrow>
        let laser = ps ! li; powerCell = ps ! ci in
        if pdir laser = Some ''E'' \<or> pdir laser = Some ''W'' then
          (case findSafePositionNear c ps (fst (ppos powerCell)) (snd (ppos laser)) of
             Inl e \<Rightarrow> Inl e
           | Inr None \<Rightarrow> Inr ps
           | Inr (Some safePos) \<Rightarrow>
               Inr (ps[ci := powerCell\<lparr>ppos := (fst (ppos powerCell), snd safePos)\<rparr>]))
        else if pdir laser = Some ''N'' \<or> pdir laser = Some ''S'' then
          (case findSafePositionNear c ps (fst (ppos laser)) (snd (ppos powerCell)) of
             Inl e \<Rightarrow> Inl e
           | Inr None \<Rightarrow> Inr ps
           | Inr (Some safePos) \<Rightarrow>
               Inr (ps[ci := powerCell\<lparr>ppos := (fst safePos, snd (ppos powerCell))\<rparr>]))
        else Inr ps)"

fun alignLoop :: "string list \<Rightarrow> (nat \<times> nat) list \<Rightarrow> prefab list \<Rightarrow> string + prefab list" where
  "alignLoop c [] ps = Inr ps"
| "alignLoop c (lc # lcs) ps =
     (case alignStep c lc ps of Inl e \<Rightarrow> Inl e | Inr ps' \<Rightarrow> alignLoop c lcs ps')"

definition alignLasersAndPowerCells :: "tile \<Rightarrow> string + tile" where
  "alignLasersAndPowerCells t =
     (case prefabs t of
        None \<Rightarrow> Inr t
      | Some ps \<Rightarrow>
          (case alignLoop (collisionOf t)
                  (zip (indicesWhere isLaserPrefab ps) (indicesWhere isCellPrefab ps)) ps of
             Inl e \<Rightarrow> Inl e
           | Inr ps' \<Rightarrow> Inr (t\<lparr>prefabs := Some ps'\<rparr>)))"

definition balanceLaserAndPowerCells :: "tile \<Rightarrow> string + tile" where
  "balanceLaserAndPowerCells t =
     (case prefabs t of
        None \<Rightarrow> Inr t
      | Some ps \<Rightarrow>
          let nLasers = length (filter isLaserPrefab ps);
              nCells = length (filter isCellPrefab ps)
          in case (if nLasers \<noteq> nCells then
                     (if nLasers > nCells then addPowerCellsToMatch t nLasers nCells
                      else addLasersToMatch t nLasers nCells)
                   else Inr t) of
               Inl e \<Rightarrow> Inl e
             | Inr t' \<Rightarrow> alignLasersAndPowerCells t')"

text \<open>
  \<open>removeEntitiesInWalls\<close>: the filter keeps a prefab whose cell exists and is no wall.
  A prefab in a negative row makes the filter read \<open>.length\<close> of \<open>undefined\<close>.
\<close>

definition keepPrefab :: "string list \<Rightarrow> prefab \<Rightarrow> string + bool" where
  "keepPrefab c p =
     (case ppos p of (x, y) \<Rightarrow>
        if y \<ge> int (length c) then Inr False
        else (case js_nth c y of
                None \<Rightarrow> Inl ''TypeError: tile.collision[y] is undefined''
              | Some row \<Rightarrow>
                  if x \<ge> int (length row) then Inr False
                  else if js_nth row x = Some CHR ''#'' then Inr False
                  else Inr True))"

fun filterPrefabs :: "string list \<Rightarrow> prefab list \<Rightarrow> string + prefab list" where
  "filterPrefabs c [] = Inr []"
| "filterPrefabs c (p # ps) =
     (case keepPrefab c p of
        Inl e \<Rightarrow> Inl e
      | Inr k \<Rightarrow>
          (case filterPrefabs c ps of
             Inl e \<Rightarrow> Inl e
           | Inr ps' \<Rightarrow> Inr (if k then p # ps' else ps')))"

definition removeEntitiesInWalls :: "tile \<Rightarrow> string + tile" where
  "removeEntitiesInWalls t =
     (case (prefabs t, collision t) of
        (Some ps, Some c) \<Rightarrow>
          (case filterPrefabs c ps of
             Inl e \<Rightarrow> Inl e
           | Inr ps' \<Rightarrow> Inr (t\<lparr>prefabs := Some ps'\<rparr>))
      | _ \<Rightarrow> Inr t)"

definition validateAndFixTile :: "tile \<Rightarrow> string + tile" where
  "validateAndFixTile t =
     (case balanceLaserAndPowerCells t of
        Inl e \<Rightarrow> Inl e
      | Inr t' \<Rightarrow> removeEntitiesInWalls t')"

section \<open>Vectors and entities (utils.js, ui.js)\<close>

text \<open>
  JavaScript numbers that hold pixel coordinates are modelled as reals: the arithmetic of
  the model is exact where the double arithmetic of the source rounds. The concrete
  inputs evaluated below use integers only, on which both agree.
\<close>

datatype Vector2 = Vector2 (vx: real) (vy: real)

definition Vector2_add :: "Vector2 \<Rightarrow> Vector2 \<Rightarrow> Vector2" where
  "Vector2_add a b = Vector2 (vx a + vx b) (vy a + vy b)"


definition Vector2_multiply :: "Vector2 \<Rightarrow> real \<Rightarrow> Vector2" where
  "Vector2_multiply a k = Vector2 (vx a * k) (vy a * k)"

definition distance :: "Vector2 \<Rightarrow> Vector2 \<Rightarrow> real" where
  "distance a b = sqrt ((vx a - vx b) * (vx a - vx b) + (vy a - vy b) * (vy a - vy b))"

text \<open>
  An entity is an object of one of the classes of ui.js; \<open>cname\<close> is
  \<open>entity.constructor.name\<close>, which the source dispatches on. A member that a class
  does not define reads as \<open>undefined\<close>, which is false in every test the source makes
  (\<open>isOpen\<close> of an entity that is no door).
\<close>

record Entity =
  cname :: string
  eid :: string
  position :: Vector2
  ewidth :: real
  eheight :: real
  visible :: bool
  active :: bool
  solid :: bool
  isOpen :: bool
  isActive :: bool
  direction :: string
  isPowered :: bool
  laserPowered :: bool

definition getCenter :: "Entity \<Rightarrow> Vector2" where
  "getCenter e = Vector2 (vx (position e) + ewidth e / 2) (vy (position e) + eheight e / 2)"

text \<open>\<open>LaserEmitter.getDirectionVector\<close>: the table \<open>DIRECTIONS\<close>, East by default.\<close>

definition getDirectionVector :: "Entity \<Rightarrow> Vector2" where
  "getDirectionVector e =
     (if direction e = ''N'' then Vector2 0 (- 1)
      else if direction e = ''S'' then Vector2 0 1
      else if direction e = ''E'' then Vector2 1 0
      else if direction e = ''W'' then Vector2 (- 1) 0
      else Vector2 1 0)"

text \<open>
  \<open>LaserEmitter.getLaserStart\<close> returns the start point of the beam and, when the
  centre has a negative coordinate, moves the emitter itself to non-negative
  coordinates: the second component is the emitter after the call.
\<close>

definition getLaserStart :: "Entity \<Rightarrow> Vector2 \<times> Entity" where
  "getLaserStart e =
     (let center = getCenter e in
      if vx center < 0 \<or> vy center < 0 then
        (let safeCenter = Vector2 (max 0 (vx center)) (max 0 (vy center));
             e' = e\<lparr>position := Vector2 (max 0 (vx (position e))) (max 0 (vy (position e)))\<rparr>
         in (Vector2_add safeCenter (Vector2_multiply (getDirectionVector e') 2), e'))
      else (Vector2_add center (Vector2_multiply (getDirectionVector e) 2), e))"

section \<open>Laser tracing (the collision module)\<close>




























section \<open>Power routing (powerManagement.js)\<close>

record LaserPowerState =
  laserId :: string
  powerCellId :: string
  isConnected :: bool
  lastConnectedTime :: int
  totalPowerTime :: int
  connectionCount :: nat

definition LaserPowerState_new :: "string \<Rightarrow> string \<Rightarrow> LaserPowerState" where
  "LaserPowerState_new l c =
     \<lparr> laserId = l, powerCellId = c, isConnected = False, lastConnectedTime = 0,
       totalPowerTime = 0, connectionCount = 0 \<rparr>"

text \<open>The three methods read the clock (\<open>Date.now()\<close>), passed as \<open>now\<close>.\<close>

definition connect :: "int \<Rightarrow> LaserPowerState \<Rightarrow> LaserPowerState" where
  "connect now ps =
     (if \<not> isConnected ps
      then ps\<lparr>isConnected := True, lastConnectedTime := now,
              connectionCount := connectionCount ps + 1\<rparr>
      else ps)"

definition disconnect :: "int \<Rightarrow> LaserPowerState \<Rightarrow> LaserPowerState" where
  "disconnect now ps =
     (if isConnected ps
      then ps\<lparr>isConnected := False,
              totalPowerTime := totalPowerTime ps + (now - lastConnectedTime ps)\<rparr>
      else ps)"

definition updateTotalTime :: "int \<Rightarrow> LaserPowerState \<Rightarrow> LaserPowerState" where
  "updateTotalTime now ps =
     (if isConnected ps
      then ps\<lparr>totalPowerTime := totalPowerTime ps + (now - lastConnectedTime ps),
              lastConnectedTime := now\<rparr>
      else ps)"

record laserState =
  ls_isActive :: bool
  ls_direction :: string
  ls_position :: Vector2
  ls_lastRotation :: int
  ls_activationCount :: nat

record cellState =
  cs_isPowered :: bool
  cs_laserPowered :: bool
  cs_position :: Vector2
  poweringLasers :: "string list"
  lastPowerChange :: int

text \<open>The payload objects of the seven events of \<open>POWER_EVENTS\<close>.\<close>

datatype eventData =
    LaserActivatedData string Vector2 string
  | LaserDeactivatedData string Vector2
  | LaserRotatedData string string string Vector2
  | LaserHitCellData string string Vector2 Vector2
  | LaserLostCellData string "string option"
  | CellPoweredData string Vector2 "string list"
  | CellUnpoweredData string Vector2

definition LASER_ACTIVATED :: string where "LASER_ACTIVATED = ''laser_activated''"
definition LASER_DEACTIVATED :: string where "LASER_DEACTIVATED = ''laser_deactivated''"
definition LASER_ROTATED :: string where "LASER_ROTATED = ''laser_rotated''"
definition LASER_HIT_CELL :: string where "LASER_HIT_CELL = ''laser_hit_cell''"
definition LASER_LOST_CELL :: string where "LASER_LOST_CELL = ''laser_lost_cell''"
definition CELL_POWERED :: string where "CELL_POWERED = ''cell_powered''"
definition CELL_UNPOWERED :: string where "CELL_UNPOWERED = ''cell_unpowered''"

text \<open>
  A call either returns or throws; the state it leaves is there in both cases. A
  listener is a function of the payload acting on the part \<open>'w\<close> of the program outside
  the power manager.
\<close>

datatype 's outcome = Returned 's | Threw string 's

type_synonym 'w listener = "eventData \<Rightarrow> 'w \<Rightarrow> 'w outcome"

datatype consoleLine =
    Warn_listener_error string
  | Log_event string eventData

record 'w PowerManagementSystem =
  powerStates :: "(string \<times> LaserPowerState) list"
  laserStates :: "(string \<times> laserState) list"
  cellStates :: "(string \<times> cellState) list"
  eventListeners :: "(string \<times> 'w listener list) list"
  lastUpdate :: int
  debugMode :: bool
  totalCellPowerings :: nat
  stats_totalPowerTime :: int

text \<open>
  The running program around the power manager: the entity list that \<open>update\<close> is
  called with, the rest of the program \<open>world\<close>, the console lines written by
  \<open>emitEvent\<close>, and the clock. \<open>emitted\<close> and \<open>invoked\<close> are history: every call of
  \<open>emitEvent\<close> and every call of a listener (event and position in the listener array)
  in the order they happened.
\<close>

record 'w machine =
  pm :: "'w PowerManagementSystem"
  ents :: "Entity list"
  world :: 'w
  console :: "consoleLine list"
  clock :: int
  emitted :: "(string \<times> eventData) list"
  invoked :: "(string \<times> nat) list"

definition andThen :: "'s outcome \<Rightarrow> ('s \<Rightarrow> 's outcome) \<Rightarrow> 's outcome" where
  "andThen r f = (case r of Returned s \<Rightarrow> f s | Threw e s \<Rightarrow> Threw e s)"

text \<open>\<open>Array.prototype.forEach\<close>: an exception of the callback ends the iteration.\<close>

fun forEach :: "('a \<Rightarrow> 's \<Rightarrow> 's outcome) \<Rightarrow> 'a list \<Rightarrow> 's \<Rightarrow> 's outcome" where
  "forEach f [] s = Returned s"
| "forEach f (a # as) s = andThen (f a s) (forEach f as)"

definition tryCatch ::
  "('s \<Rightarrow> 's outcome) \<Rightarrow> (string \<Rightarrow> 's \<Rightarrow> 's outcome) \<Rightarrow> 's \<Rightarrow> 's outcome" where
  "tryCatch body handler s =
     (case body s of Returned s' \<Rightarrow> Returned s' | Threw e s' \<Rightarrow> handler e s')"

definition callListener ::
  "string \<Rightarrow> nat \<Rightarrow> 'w listener \<Rightarrow> eventData \<Rightarrow> 'w machine \<Rightarrow> 'w machine outcome" where
  "callListener event i callback d m =
     (let m' = m\<lparr>invoked := invoked m @ [(event, i)]\<rparr> in
      case callback d (world m') of
        Returned w \<Rightarrow> Returned (m'\<lparr>world := w\<rparr>)
      | Threw e w \<Rightarrow> Threw e (m'\<lparr>world := w\<rparr>))"

text \<open>The arrow function that \<open>emitEvent\<close> passes to \<open>forEach\<close>.\<close>

definition listenerBody ::
  "string \<Rightarrow> eventData \<Rightarrow> nat \<times> 'w listener \<Rightarrow> 'w machine \<Rightarrow> 'w machine outcome" where
  "listenerBody event d ic =
     tryCatch (callListener event (fst ic) (snd ic) d)
       (\<lambda>error s. Returned (s\<lparr>console := console s @ [Warn_listener_error error]\<rparr>))"

definition emitEvent :: "string \<Rightarrow> eventData \<Rightarrow> 'w machine \<Rightarrow> 'w machine outcome" where
  "emitEvent event d m =
     andThen
       (case map_get (eventListeners (pm m)) event of
          None \<Rightarrow> Returned (m\<lparr>emitted := emitted m @ [(event, d)]\<rparr>)
        | Some listeners \<Rightarrow>
            forEach (listenerBody event d) (zip [0 ..< length listeners] listeners)
              (m\<lparr>emitted := emitted m @ [(event, d)]\<rparr>))
       (\<lambda>m'. if debugMode (pm m')
             then Returned (m'\<lparr>console := console m' @ [Log_event event d]\<rparr>)
             else Returned m')"

text \<open>
  \<open>initialize(entities)\<close>. The entities are the objects of \<open>ents\<close>; the laser and
  cell states are keyed by the entity ids.
\<close>

definition isLaserEmitter :: "Entity \<Rightarrow> bool" where
  "isLaserEmitter e \<longleftrightarrow> cname e = ''LaserEmitter''"

definition isPowerCell :: "Entity \<Rightarrow> bool" where
  "isPowerCell e \<longleftrightarrow> cname e = ''PowerCell''"

definition initialize :: "'w machine \<Rightarrow> 'w machine" where
  "initialize m =
     m\<lparr>pm := (pm m)\<lparr>
          powerStates := [],
          laserStates :=
            foldl (\<lambda>ls laser. map_set ls (eid laser)
                     \<lparr> ls_isActive = isActive laser, ls_direction = direction laser,
                       ls_position = getCenter laser, ls_lastRotation = 0,
                       ls_activationCount = 0 \<rparr>)
              [] (filter isLaserEmitter (ents m)),
          cellStates :=
            foldl (\<lambda>cs cell. map_set cs (eid cell)
                     \<lparr> cs_isPowered = isPowered cell, cs_laserPowered = laserPowered cell,
                       cs_position = getCenter cell, poweringLasers = [],
                       lastPowerChange = 0 \<rparr>)
              [] (filter isPowerCell (ents m))\<rparr>\<rparr>"

definition setLaserState :: "string \<Rightarrow> laserState \<Rightarrow> 'w machine \<Rightarrow> 'w machine" where
  "setLaserState k v m = m\<lparr>pm := (pm m)\<lparr>laserStates := map_set (laserStates (pm m)) k v\<rparr>\<rparr>"

definition setCellState :: "string \<Rightarrow> cellState \<Rightarrow> 'w machine \<Rightarrow> 'w machine" where
  "setCellState k v m = m\<lparr>pm := (pm m)\<lparr>cellStates := map_set (cellStates (pm m)) k v\<rparr>\<rparr>"

definition setPowerState :: "string \<Rightarrow> LaserPowerState \<Rightarrow> 'w machine \<Rightarrow> 'w machine" where
  "setPowerState k v m = m\<lparr>pm := (pm m)\<lparr>powerStates := map_set (powerStates (pm m)) k v\<rparr>\<rparr>"

text \<open>\<open>updateLaserStates\<close>, the body of its \<open>forEach\<close> for the laser at index \<open>i\<close>.\<close>

definition laserActiveStep :: "Entity \<Rightarrow> 'w machine \<Rightarrow> 'w machine outcome" where
  "laserActiveStep laser m =
     (case map_get (laserStates (pm m)) (eid laser) of
        None \<Rightarrow> Returned m
      | Some cur \<Rightarrow>
          if isActive laser \<noteq> ls_isActive cur then
            (if isActive laser then
               emitEvent LASER_ACTIVATED
                 (LaserActivatedData (eid laser) (getCenter laser) (direction laser))
                 (setLaserState (eid laser)
                    (cur\<lparr>ls_isActive := True,
                          ls_activationCount := ls_activationCount cur + 1\<rparr>) m)
             else
               emitEvent LASER_DEACTIVATED (LaserDeactivatedData (eid laser) (getCenter laser))
                 (setLaserState (eid laser) (cur\<lparr>ls_isActive := False\<rparr>) m))
          else Returned m)"

definition laserRotateStep :: "string \<Rightarrow> Entity \<Rightarrow> 'w machine \<Rightarrow> 'w machine outcome" where
  "laserRotateStep oldDirection laser m =
     (case map_get (laserStates (pm m)) (eid laser) of
        None \<Rightarrow> Returned m
      | Some cur \<Rightarrow>
          if direction laser \<noteq> oldDirection then
            emitEvent LASER_ROTATED
              (LaserRotatedData (eid laser) oldDirection (direction laser) (getCenter laser))
              (setLaserState (eid laser)
                 (cur\<lparr>ls_direction := direction laser, ls_lastRotation := clock m\<rparr>) m)
          else Returned m)"

definition laserPositionStep :: "Entity \<Rightarrow> 'w machine \<Rightarrow> 'w machine outcome" where
  "laserPositionStep laser m =
     (case map_get (laserStates (pm m)) (eid laser) of
        None \<Rightarrow> Returned m
      | Some cur \<Rightarrow>
          Returned (setLaserState (eid laser) (cur\<lparr>ls_position := getCenter laser\<rparr>) m))"

definition updateLaserBody :: "nat \<Rightarrow> 'w machine \<Rightarrow> 'w machine outcome" where
  "updateLaserBody i m =
     (let laser = ents m ! i in
      case map_get (laserStates (pm m)) (eid laser) of
        None \<Rightarrow> Returned m
      | Some currentState \<Rightarrow>
          andThen (andThen (laserActiveStep laser m)
                     (laserRotateStep (ls_direction currentState) laser))
            (laserPositionStep laser))"

definition updateLaserStates :: "'w machine \<Rightarrow> 'w machine outcome" where
  "updateLaserStates m = forEach updateLaserBody (indicesWhere isLaserEmitter (ents m)) m"

text \<open>
  \<open>findLaserForBeam\<close>: the active emitter whose beam start is nearest to the start of
  the beam, within 50 px. The search calls \<open>getLaserStart\<close> on every active emitter,
  which may move it, so the entity list is returned with the index of the emitter found.
  \<open>closestDistance\<close> starts at \<open>Infinity\<close>, here \<open>None\<close>.
\<close>

definition findLaserStep ::
  "Vector2 \<Rightarrow> Entity list \<times> nat option \<times> real option \<Rightarrow> nat
     \<Rightarrow> Entity list \<times> nat option \<times> real option" where
  "findLaserStep beamStart st li =
     (case st of (es, closestLaser, closestDistance) \<Rightarrow>
        if \<not> isActive (es ! li) then st
        else
          (case getLaserStart (es ! li) of (laserStart, laser') \<Rightarrow>
             let d = distance laserStart beamStart in
             if (case closestDistance of None \<Rightarrow> True | Some c \<Rightarrow> d < c) \<and> d < 50
             then (es[li := laser'], Some li, Some d)
             else (es[li := laser'], closestLaser, closestDistance)))"

definition findLaserForBeam :: "Vector2 \<Rightarrow> Entity list \<Rightarrow> nat option \<times> Entity list" where
  "findLaserForBeam beamStart es =
     (case foldl (findLaserStep beamStart) (es, None, None) (indicesWhere isLaserEmitter es) of
        (es', closestLaser, closestDistance) \<Rightarrow> (closestLaser, es'))"

text \<open>\<open>PowerManagementSystem.pointToLineDistance\<close>.\<close>

definition pointToLineDistance :: "Vector2 \<Rightarrow> Vector2 \<Rightarrow> Vector2 \<Rightarrow> real" where
  "pointToLineDistance point lineStart lineEnd =
     (let A = vx point - vx lineStart; B = vy point - vy lineStart;
          C = vx lineEnd - vx lineStart; D = vy lineEnd - vy lineStart;
          dot = A * C + B * D; lenSq = C * C + D * D
      in if lenSq = 0 then distance point lineStart
         else
           (let param = dot / lenSq;
                xx = (if param < 0 then vx lineStart
                      else if param > 1 then vx lineEnd else vx lineStart + param * C);
                yy = (if param < 0 then vy lineStart
                      else if param > 1 then vy lineEnd else vy lineStart + param * D);
                dx = vx point - xx; dy = vy point - yy
            in sqrt (dx * dx + dy * dy)))"

record LaserBeam =
  beam_start :: "Vector2 option"
  beam_end :: "Vector2 option"

text \<open>\<open>String.prototype.split\<close> with a one-character separator.\<close>

fun splitFrom :: "char \<Rightarrow> string \<Rightarrow> string \<Rightarrow> string list" where
  "splitFrom c part [] = [part]"
| "splitFrom c part (x # xs) =
     (if x = c then part # splitFrom c [] xs else splitFrom c (part @ [x]) xs)"

definition js_split :: "char \<Rightarrow> string \<Rightarrow> string list" where
  "js_split c s = splitFrom c [] s"

definition connectionKey :: "string \<Rightarrow> string \<Rightarrow> string" where
  "connectionKey l c = l @ ''_'' @ c"

text \<open>
  \<open>updatePowerCellStates\<close>: the body of the inner \<open>laserBeams.forEach\<close> for the cell at
  index \<open>ci\<close>, the body of the second \<open>powerCells.forEach\<close>, and the body of the final
  \<open>powerStates.forEach\<close>.
\<close>

definition beamBody ::
  "nat \<Rightarrow> Vector2 \<Rightarrow> real \<Rightarrow> LaserBeam \<Rightarrow> 'w machine \<Rightarrow> 'w machine outcome" where
  "beamBody ci cellCenter cellRadius beam m =
     (case (beam_start beam, beam_end beam) of
        (Some bs, Some be) \<Rightarrow>
          (case findLaserForBeam bs (ents m) of
             (None, es) \<Rightarrow> Returned (m\<lparr>ents := es\<rparr>)
           | (Some li, es) \<Rightarrow>
               let m1 = m\<lparr>ents := es\<rparr>; hitLaser = es ! li; cell = es ! ci in
               if pointToLineDistance cellCenter bs be \<le> cellRadius + 5 then
                 (case map_get (cellStates (pm m1)) (eid cell) of
                    None \<Rightarrow> Returned m1
                  | Some cellState \<Rightarrow>
                      let m2 = setCellState (eid cell)
                                 (cellState\<lparr>poweringLasers :=
                                     poweringLasers cellState @ [eid hitLaser]\<rparr>) m1;
                          key = connectionKey (eid hitLaser) (eid cell);
                          m3 = (case map_get (powerStates (pm m2)) key of
                                  None \<Rightarrow> setPowerState key
                                            (LaserPowerState_new (eid hitLaser) (eid cell)) m2
                                | Some ps \<Rightarrow> m2)
                      in (case map_get (powerStates (pm m3)) key of
                            None \<Rightarrow> Returned m3
                          | Some powerState \<Rightarrow>
                              if \<not> isConnected powerState then
                                emitEvent LASER_HIT_CELL
                                  (LaserHitCellData (eid hitLaser) (eid cell)
                                     (getCenter hitLaser) cellCenter)
                                  (setPowerState key (connect (clock m3) powerState) m3)
                              else Returned m3))
               else Returned m1)
      | _ \<Rightarrow> Returned m)"

definition cellEdge :: "nat \<Rightarrow> Vector2 \<Rightarrow> 'w machine \<Rightarrow> 'w machine outcome" where
  "cellEdge ci cellCenter m =
     (let cell = ents m ! ci in
      case map_get (cellStates (pm m)) (eid cell) of
        None \<Rightarrow> Returned m
      | Some cellState \<Rightarrow>
          let wasPowered = cs_isPowered cellState;
              nowPowered = (length (poweringLasers cellState) > 0)
          in if nowPowered \<noteq> wasPowered then
               (let m1 = setCellState (eid cell)
                           (cellState\<lparr>cs_isPowered := nowPowered, cs_laserPowered := nowPowered,
                                       lastPowerChange := clock m\<rparr>) m;
                    m2 = m1\<lparr>ents := (ents m1)[ci := cell\<lparr>isPowered := nowPowered,
                                                          laserPowered := nowPowered\<rparr>]\<rparr>
                in if nowPowered then
                     emitEvent CELL_POWERED
                       (CellPoweredData (eid cell) cellCenter (poweringLasers cellState))
                       (m2\<lparr>pm := (pm m2)\<lparr>totalCellPowerings :=
                                               totalCellPowerings (pm m2) + 1\<rparr>\<rparr>)
                   else emitEvent CELL_UNPOWERED (CellUnpoweredData (eid cell) cellCenter) m2)
             else Returned m)"

definition cellBody :: "LaserBeam list \<Rightarrow> nat \<Rightarrow> 'w machine \<Rightarrow> 'w machine outcome" where
  "cellBody laserBeams ci m =
     (let cell = ents m ! ci in
      case map_get (cellStates (pm m)) (eid cell) of
        None \<Rightarrow> Returned m
      | Some cellState \<Rightarrow>
          let cellCenter = getCenter cell;
              cellRadius = max (ewidth cell) (eheight cell) / 2
          in andThen (forEach (beamBody ci cellCenter cellRadius) laserBeams m)
               (cellEdge ci cellCenter))"

definition resetPowering :: "nat \<Rightarrow> 'w machine \<Rightarrow> 'w machine outcome" where
  "resetPowering ci m =
     (case map_get (cellStates (pm m)) (eid (ents m ! ci)) of
        None \<Rightarrow> Returned m
      | Some cellState \<Rightarrow>
          Returned (setCellState (eid (ents m ! ci)) (cellState\<lparr>poweringLasers := []\<rparr>) m))"

definition lostBody :: "string \<Rightarrow> 'w machine \<Rightarrow> 'w machine outcome" where
  "lostBody key m =
     (case map_get (powerStates (pm m)) key of
        None \<Rightarrow> Returned m
      | Some powerState \<Rightarrow>
          if isConnected powerState then
            (let parts = js_split CHR ''_'' key;
                 laserId = hd parts;
                 cellId = js_nth parts 1;
                 cellState = (case cellId of None \<Rightarrow> None
                              | Some c \<Rightarrow> map_get (cellStates (pm m)) c)
             in if (case cellState of None \<Rightarrow> True
                    | Some cs \<Rightarrow> laserId \<notin> set (poweringLasers cs))
                then emitEvent LASER_LOST_CELL (LaserLostCellData laserId cellId)
                       (setPowerState key (disconnect (clock m) powerState) m)
                else Returned m)
          else Returned m)"

definition updatePowerCellStates :: "LaserBeam list \<Rightarrow> 'w machine \<Rightarrow> 'w machine outcome" where
  "updatePowerCellStates laserBeams m =
     andThen
       (andThen (forEach resetPowering (indicesWhere isPowerCell (ents m)) m)
          (forEach (cellBody laserBeams) (indicesWhere isPowerCell (ents m))))
       (\<lambda>m'. forEach lostBody (map fst (powerStates (pm m'))) m')"

definition updateConnectionStates :: "'w machine \<Rightarrow> 'w machine" where
  "updateConnectionStates m =
     m\<lparr>pm := (pm m)\<lparr>powerStates :=
          map (\<lambda>(k, ps). (k, updateTotalTime (clock m) ps)) (powerStates (pm m))\<rparr>\<rparr>"

definition updateStatistics :: "'w machine \<Rightarrow> 'w machine" where
  "updateStatistics m =
     m\<lparr>pm := (pm m)\<lparr>stats_totalPowerTime :=
          foldl (\<lambda>acc (k, ps). acc + totalPowerTime ps) 0 (powerStates (pm m))\<rparr>\<rparr>"

text \<open>\<open>update(entities, laserBeams)\<close>, one tick.\<close>

definition update :: "LaserBeam list \<Rightarrow> 'w machine \<Rightarrow> 'w machine outcome" where
  "update laserBeams m =
     andThen
       (andThen (updateLaserStates (m\<lparr>pm := (pm m)\<lparr>lastUpdate := clock m\<rparr>\<rparr>))
          (updatePowerCellStates laserBeams))
       (\<lambda>m'. Returned (updateStatistics (updateConnectionStates m')))"

section \<open>Collision queries on a room\<close>

lemma WorldRoom_new_wellShaped: "wellShaped (WorldRoom_new rd wx wy rx ry)"
  by (simp add: wellShaped_def WorldRoom_new_def createCollisionMap_def list_all_iff)

lemma WorldRoom_new_cell:
  assumes "0 \<le> x" "x < tileWidthOf rd" "0 \<le> y" "y < tileHeightOf rd"
  shows "collisionMap (WorldRoom_new rd wx wy rx ry) ! nat y ! nat x
           = collisionCell (collisionOf rd) (nat y) (nat x)"
  using assms by (simp add: WorldRoom_new_def createCollisionMap_def)

text \<open>
  C10. \<open>hasCollisionAt\<close> is total over all local tile coordinates: a position outside
  \<open>0 \<le> x < tileWidth\<close>, \<open>0 \<le> y < tileHeight\<close> is a wall, and a position inside reads
  exactly the entry of the collision map, at indices that exist in the map. This holds
  for every room of the constructor's shape, and the constructor gives that shape.
\<close>

theorem hasCollisionAt_total:
  assumes "room = WorldRoom_new rd wx wy rx ry \<or> wellShaped room"
  shows "(x < 0 \<or> x \<ge> tileWidth room \<or> y < 0 \<or> y \<ge> tileHeight room
            \<longrightarrow> hasCollisionAt room (x, y) = Some True)
       \<and> (0 \<le> x \<and> x < tileWidth room \<and> 0 \<le> y \<and> y < tileHeight room
            \<longrightarrow> nat y < length (collisionMap room)
              \<and> nat x < length (collisionMap room ! nat y)
              \<and> hasCollisionAt room (x, y) = Some (collisionMap room ! nat y ! nat x))"
proof -
  from assms have ws: "wellShaped room"
    using WorldRoom_new_wellShaped by auto
  have out: "x < 0 \<or> x \<ge> tileWidth room \<or> y < 0 \<or> y \<ge> tileHeight room
      \<Longrightarrow> hasCollisionAt room (x, y) = Some True"
    by (auto simp: hasCollisionAt_def)
  have inb: "nat y < length (collisionMap room)
      \<and> nat x < length (collisionMap room ! nat y)
      \<and> hasCollisionAt room (x, y) = Some (collisionMap room ! nat y ! nat x)"
    if b: "0 \<le> x" "x < tileWidth room" "0 \<le> y" "y < tileHeight room"
  proof -
    from ws b have ly: "nat y < length (collisionMap room)"
      by (simp add: wellShaped_def)
    with ws have "length (collisionMap room ! nat y) = nat (tileWidth room)"
      by (simp add: wellShaped_def list_all_length)
    with b have lx: "nat x < length (collisionMap room ! nat y)"
      by simp
    from b ly lx have "y < int (length (collisionMap room))"
      and "x < int (length (collisionMap room ! nat y))"
      by linarith+
    with b ly lx show ?thesis
      by (simp add: hasCollisionAt_def js_nth_def)
  qed
  from out inb show ?thesis by blast
qed

theorem hasCollisionAt_total_witness:
  "hasCollisionAt (WorldRoom_new
      \<lparr> tid = ''t'', tsize = Some (3, 2), tstart = False, texit = False,
        collision = Some [''#.#'', ''...''], exits = [], prefabs = None \<rparr> 0 0 0 0) (2, 0)
     = Some True
   \<and> hasCollisionAt (WorldRoom_new
      \<lparr> tid = ''t'', tsize = Some (3, 2), tstart = False, texit = False,
        collision = Some [''#.#'', ''...''], exits = [], prefabs = None \<rparr> 0 0 0 0) (1, 1)
     = Some False
   \<and> hasCollisionAt (WorldRoom_new
      \<lparr> tid = ''t'', tsize = Some (3, 2), tstart = False, texit = False,
        collision = Some [''#.#'', ''...''], exits = [], prefabs = None \<rparr> 0 0 0 0) (3, 1)
     = Some True"
  using hasCollisionAt_total [of "WorldRoom_new
      \<lparr> tid = ''t'', tsize = Some (3, 2), tstart = False, texit = False,
        collision = Some [''#.#'', ''...''], exits = [], prefabs = None \<rparr> 0 0 0 0"
      "\<lparr> tid = ''t'', tsize = Some (3, 2), tstart = False, texit = False,
        collision = Some [''#.#'', ''...''], exits = [], prefabs = None \<rparr>" 0 0 0 0 2 0]
    hasCollisionAt_total [of "WorldRoom_new
      \<lparr> tid = ''t'', tsize = Some (3, 2), tstart = False, texit = False,
        collision = Some [''#.#'', ''...''], exits = [], prefabs = None \<rparr> 0 0 0 0"
      "\<lparr> tid = ''t'', tsize = Some (3, 2), tstart = False, texit = False,
        collision = Some [''#.#'', ''...''], exits = [], prefabs = None \<rparr>" 0 0 0 0 1 1]
    hasCollisionAt_total [of "WorldRoom_new
      \<lparr> tid = ''t'', tsize = Some (3, 2), tstart = False, texit = False,
        collision = Some [''#.#'', ''...''], exits = [], prefabs = None \<rparr> 0 0 0 0"
      "\<lparr> tid = ''t'', tsize = Some (3, 2), tstart = False, texit = False,
        collision = Some [''#.#'', ''...''], exits = [], prefabs = None \<rparr>" 0 0 0 0 3 1]
  by (simp add: WorldRoom_new_def createCollisionMap_def collisionCell_def collisionOf_def
      tileWidthOf_def tileHeightOf_def actualWidth_def actualHeight_def upt_rec)

section \<open>Balance repair of a template\<close>

text \<open>
  A power cell is well placed when its cell of the collision mask is floor and no other
  prefab of the list has its position; the repair keeps every row index non-negative.
\<close>

definition floorAt :: "string list \<Rightarrow> int \<times> int \<Rightarrow> bool" where
  "floorAt c pos \<longleftrightarrow> cellAt c (fst pos) (snd pos) = Some CHR ''.''"

definition cellsPlaced :: "string list \<Rightarrow> prefab list \<Rightarrow> bool" where
  "cellsPlaced c ps \<longleftrightarrow>
     (\<forall>p \<in> set ps. isCellPrefab p \<longrightarrow>
        floorAt c (ppos p) \<and> (\<forall>q \<in> set ps. q \<noteq> p \<longrightarrow> ppos q \<noteq> ppos p))"

definition rowsNonneg :: "prefab list \<Rightarrow> bool" where
  "rowsNonneg ps \<longleftrightarrow> (\<forall>p \<in> set ps. 0 \<le> snd (ppos p))"

definition tags :: "prefab list \<Rightarrow> (string \<times> string option) list" where
  "tags ps = map (\<lambda>p. (ptype p, pid p)) ps"

lemma interiorCells_distinct: "distinct (interiorCells w h)"
proof -
  have "distinct (concat (map (\<lambda>y. map (\<lambda>x. (x, y)) xs) ys))"
    if "distinct xs" "distinct ys" for xs ys :: "int list"
    using that by (induction ys) (auto simp: distinct_map inj_on_def)
  then show ?thesis by (simp add: interiorCells_def)
qed

lemma allSafePositions_distinct: "distinct (allSafePositions t w h)"
  by (simp add: allSafePositions_def interiorCells_distinct)

lemma allSafePositions_safe:
  assumes "pos \<in> set (allSafePositions t w h)"
  shows "floorAt (collisionOf t) pos" "\<not> occupied (prefabsOf t) (fst pos) (snd pos)"
    "1 \<le> snd pos"
  using assms
  by (auto simp: allSafePositions_def interiorCells_def safeCell_def floorAt_def)

lemma findSafePositionNear_cases:
  assumes "0 \<le> ty"
  shows "findSafePositionNear c ps tx ty = Inr None
       \<or> (findSafePositionNear c ps tx ty = Inr (Some (tx, ty))
            \<and> floorAt c (tx, ty) \<and> \<not> occupied ps tx ty)"
  using assms
  by (auto simp: findSafePositionNear_def js_nth_def floorAt_def cellAt_def)

lemma move_keeps:
  assumes rn: "rowsNonneg ps" and cp: "cellsPlaced c ps"
    and ci: "ci < length ps" and cell: "isCellPrefab (ps ! ci)"
    and fl: "floorAt c target" and free: "\<not> occupied ps (fst target) (snd target)"
    and ty: "0 \<le> snd target"
  shows "rowsNonneg (ps[ci := (ps ! ci)\<lparr>ppos := target\<rparr>])"
    and "cellsPlaced c (ps[ci := (ps ! ci)\<lparr>ppos := target\<rparr>])"
    and "tags (ps[ci := (ps ! ci)\<lparr>ppos := target\<rparr>]) = tags ps"
proof -
  let ?v = "(ps ! ci)\<lparr>ppos := target\<rparr>"
  let ?ps' = "ps[ci := ?v]"
  have sub: "set ?ps' \<subseteq> insert ?v (set ps)"
    by (rule set_update_subset_insert)
  have away: "ppos q \<noteq> target" if "q \<in> set ps" for q
    using free that by (auto simp: occupied_def prod_eq_iff)
  show "rowsNonneg ?ps'"
    using rn ty sub by (auto simp: rowsNonneg_def)
  show "cellsPlaced c ?ps'"
    unfolding cellsPlaced_def
  proof (intro ballI impI conjI)
    fix p assume p: "p \<in> set ?ps'" and pc: "isCellPrefab p"
    from p sub have pv: "p = ?v \<or> p \<in> set ps" by auto
    show "floorAt c (ppos p)"
      using pv fl cp pc by (auto simp: cellsPlaced_def)
    fix q assume q: "q \<in> set ?ps'" and qp: "q \<noteq> p"
    from q sub have qv: "q = ?v \<or> q \<in> set ps" by auto
    show "ppos q \<noteq> ppos p"
    proof (cases "p = ?v")
      case True
      with qp qv have "q \<in> set ps" by auto
      with away True show ?thesis by auto
    next
      case False
      with pv have pin: "p \<in> set ps" by simp
      show ?thesis
      proof (cases "q = ?v")
        case True
        with away [OF pin] show ?thesis by auto
      next
        case False
        with qv have "q \<in> set ps" by simp
        with cp pin pc qp show ?thesis by (auto simp: cellsPlaced_def)
      qed
    qed
  qed
  show "tags ?ps' = tags ps"
    using ci by (simp add: tags_def map_update list_update_same_conv)
qed

lemma alignStep_keeps:
  assumes rn: "rowsNonneg ps" and cp: "cellsPlaced c ps"
    and li: "li < length ps" and ci: "ci < length ps" and cell: "isCellPrefab (ps ! ci)"
  shows "\<exists>ps'. alignStep c (li, ci) ps = Inr ps' \<and> rowsNonneg ps' \<and> cellsPlaced c ps'
           \<and> tags ps' = tags ps"
proof -
  have ly: "0 \<le> snd (ppos (ps ! li))" and cy: "0 \<le> snd (ppos (ps ! ci))"
    using rn li ci by (auto simp: rowsNonneg_def)
  note ew = findSafePositionNear_cases [OF ly, of c ps "fst (ppos (ps ! ci))"]
  note ns = findSafePositionNear_cases [OF cy, of c ps "fst (ppos (ps ! li))"]
  note mv = move_keeps [OF rn cp ci cell]
  consider (ew) "pdir (ps ! li) = Some ''E'' \<or> pdir (ps ! li) = Some ''W''"
    | (ns) "\<not> (pdir (ps ! li) = Some ''E'' \<or> pdir (ps ! li) = Some ''W'')"
           "pdir (ps ! li) = Some ''N'' \<or> pdir (ps ! li) = Some ''S''"
    | (no) "\<not> (pdir (ps ! li) = Some ''E'' \<or> pdir (ps ! li) = Some ''W'')"
           "\<not> (pdir (ps ! li) = Some ''N'' \<or> pdir (ps ! li) = Some ''S'')"
    by blast
  then show ?thesis
  proof cases
    case ew
    from ew(1) \<open>findSafePositionNear c ps (fst (ppos (ps ! ci))) (snd (ppos (ps ! li))) = Inr None
       \<or> _\<close> show ?thesis
      using rn cp mv [of "(fst (ppos (ps ! ci)), snd (ppos (ps ! li)))"] ly
      by (auto simp: alignStep_def Let_def)
  next
    case ns
    from ns \<open>findSafePositionNear c ps (fst (ppos (ps ! li))) (snd (ppos (ps ! ci))) = Inr None
       \<or> _\<close> show ?thesis
      using rn cp mv [of "(fst (ppos (ps ! li)), snd (ppos (ps ! ci)))"] cy
      by (auto simp: alignStep_def Let_def)
  next
    case no
    then show ?thesis using rn cp by (auto simp: alignStep_def Let_def)
  qed
qed


lemma alignLoop_keeps:
  assumes "rowsNonneg ps" "cellsPlaced c ps"
    and "\<forall>(li, ci) \<in> set lcs. li < length ps \<and> ci < length ps \<and> isCellPrefab (ps ! ci)"
  shows "\<exists>ps'. alignLoop c lcs ps = Inr ps' \<and> rowsNonneg ps' \<and> cellsPlaced c ps'
           \<and> tags ps' = tags ps"
  using assms
proof (induction lcs arbitrary: ps)
  case Nil
  then show ?case by simp
next
  case (Cons lc lcs)
  obtain li ci where lc: "lc = (li, ci)" by (cases lc)
  from Cons.prems(3) lc have idx: "li < length ps" "ci < length ps" "isCellPrefab (ps ! ci)"
    by auto
  from alignStep_keeps [OF Cons.prems(1,2) idx]
  obtain ps1 where s1: "alignStep c (li, ci) ps = Inr ps1" and rn1: "rowsNonneg ps1"
    and cp1: "cellsPlaced c ps1" and tg1: "tags ps1 = tags ps"
    by blast
  from tg1 have len1: "length ps1 = length ps"
    by (metis length_map tags_def)
  have ty: "isCellPrefab (ps1 ! i) = isCellPrefab (ps ! i)" if "i < length ps" for i
  proof -
    from that len1 have "tags ps1 ! i = (ptype (ps1 ! i), pid (ps1 ! i))"
      and "tags ps ! i = (ptype (ps ! i), pid (ps ! i))"
      by (simp_all add: tags_def)
    with tg1 show ?thesis by (simp add: isCellPrefab_def)
  qed
  from Cons.prems(3) have rest:
    "\<forall>(li, ci) \<in> set lcs. li < length ps1 \<and> ci < length ps1 \<and> isCellPrefab (ps1 ! ci)"
    using len1 ty by auto
  from Cons.IH [OF rn1 cp1 rest] tg1 s1 lc show ?case
    by auto
qed

definition keeps :: "string list \<Rightarrow> prefab \<Rightarrow> bool" where
  "keeps c p \<longleftrightarrow> keepPrefab c p = Inr True"

lemma filterPrefabs_nonneg:
  "rowsNonneg ps \<Longrightarrow> filterPrefabs c ps = Inr (filter (keeps c) ps)"
proof (induction ps)
  case Nil
  then show ?case by simp
next
  case (Cons p ps)
  then have ih: "filterPrefabs c ps = Inr (filter (keeps c) ps)"
    and y: "0 \<le> snd (ppos p)"
    by (auto simp: rowsNonneg_def)
  from y have "keepPrefab c p = Inr (keeps c p)"
    by (auto simp: keepPrefab_def keeps_def js_nth_def split: prod.splits)
  with ih show ?case by simp
qed

lemma floor_kept: "floorAt c (ppos p) \<Longrightarrow> keeps c p"
  by (auto simp: floorAt_def cellAt_def keeps_def keepPrefab_def js_nth_def
      split: prod.splits option.splits if_splits)


lemma cell_ids_of_tags:
  "map pid (filter isCellPrefab ps) = map snd (filter (\<lambda>tg. fst tg = ''PowerCell'') (tags ps))"
  by (induction ps) (simp_all add: tags_def isCellPrefab_def)

lemma new_cells:
  fixes t :: tile and S :: "(int \<times> int) list"
  defines "new \<equiv> map (\<lambda>(i, pos). newPowerCell t 0 i pos) (zip [0 ..< length (take 2 S)] (take 2 S))"
  shows "map ppos new = take 2 S" and "list_all isCellPrefab new"
    and "distinct (map pid new)"
proof -
  show "map ppos new = take 2 S"
    unfolding new_def
    by (simp add: newPowerCell_def comp_def case_prod_unfold map_snd_zip)
  show "list_all isCellPrefab new"
    unfolding new_def by (simp add: list_all_iff newPowerCell_def isCellPrefab_def case_prod_unfold)
  have "length (take 2 S) \<le> 2" by simp
  then consider "take 2 S = []" | a where "take 2 S = [a]" | a b where "take 2 S = [a, b]"
    by (cases "take 2 S"; cases "tl (take 2 S)"; cases "tl (tl (take 2 S))") auto
  then show "distinct (map pid new)"
  proof cases
    case 1
    then show ?thesis by (simp add: new_def)
  next
    case 2
    then show ?thesis by (simp add: new_def)
  next
    case 3
    have "showNat (Suc 0) \<noteq> showNat (Suc (Suc 0))" by code_simp
    with 3 show ?thesis by (simp add: new_def newPowerCell_def)
  qed
qed

text \<open>
  A walled 4x4 room with two emitters and the player on three of its four floor cells.
\<close>

definition tile_one_free :: tile where
  "tile_one_free = \<lparr> tid = ''room'', tsize = Some (4, 4), tstart = False, texit = False,
      collision = Some [''####'', ''#..#'', ''#..#'', ''####''], exits = [],
      prefabs = Some
        [\<lparr> ptype = ''LaserEmitter'', ppos = (1, 1), pdir = Some ''S'', pid = Some ''l1'' \<rparr>,
         \<lparr> ptype = ''LaserEmitter'', ppos = (2, 1), pdir = Some ''S'', pid = Some ''l2'' \<rparr>,
         \<lparr> ptype = ''Player'', ppos = (1, 2), pdir = None, pid = Some ''player'' \<rparr>] \<rparr>"

text \<open>
  C8 as stated fails: this template has two emitters and no power cell, and the
  validation returns it with one power cell, at the only free floor cell (2, 2).
\<close>

theorem validateAndFixTile_one_free_cell:
  "length (filter isLaserPrefab (prefabsOf tile_one_free)) = 2
   \<and> length (filter isCellPrefab (prefabsOf tile_one_free)) = 0
   \<and> (case validateAndFixTile tile_one_free of
         Inl e \<Rightarrow> None
       | Inr t' \<Rightarrow> Some (map ppos (filter isCellPrefab (prefabsOf t')))) = Some [(2, 2)]"
  by code_simp

text \<open>
  C8, amended. For a template with a size, exactly two emitters, no power cell and no
  prefab in a negative row, the validation succeeds and returns as many power cells as
  there are safe interior cells, at most two: exactly two when two interior cells are
  floor and free. The cells stand on pairwise different floor cells, and no other prefab
  of the returned template has the position of one of them.
\<close>

theorem validateAndFixTile_adds_cells:
  assumes pf: "prefabs t = Some ps"
    and l2: "length (filter isLaserPrefab ps) = 2"
    and c0: "length (filter isCellPrefab ps) = 0"
    and sz: "tsize t = Some (w, h)"
    and rn: "\<forall>p \<in> set ps. 0 \<le> snd (ppos p)"
  shows "\<exists>t'. validateAndFixTile t = Inr t'
      \<and> length (filter isCellPrefab (prefabsOf t')) = min 2 (length (allSafePositions t w h))
      \<and> distinct (map ppos (filter isCellPrefab (prefabsOf t')))
      \<and> (\<forall>p \<in> set (prefabsOf t'). isCellPrefab p \<longrightarrow>
            floorAt (collisionOf t') (ppos p)
            \<and> (\<forall>q \<in> set (prefabsOf t'). \<not> isCellPrefab q \<longrightarrow> ppos q \<noteq> ppos p))"
proof -
  let ?S = "allSafePositions t w h"
  let ?c = "collisionOf t"
  define new where
    "new = map (\<lambda>(i, pos). newPowerCell t 0 i pos) (zip [0 ..< length (take 2 ?S)] (take 2 ?S))"
  define ps1 where "ps1 = ps @ new"
  define t1 where "t1 = t\<lparr>prefabs := Some ps1\<rparr>"
  note nw = new_cells [of t ?S, folded new_def]
  have nocell: "\<not> isCellPrefab p" if "p \<in> set ps" for p
    using c0 that by (auto simp: filter_empty_conv)
  have add: "addPowerCellsToMatch t 2 0 = Inr t1"
    by (simp add: addPowerCellsToMatch_def findSafePositions_def sz t1_def ps1_def new_def
        prefabsOf_def pf)
  have newpos: "ppos p \<in> set ?S" if "p \<in> set new" for p
  proof -
    from that have "ppos p \<in> set (map ppos new)" by simp
    with nw(1) show ?thesis by (auto dest: in_set_takeD)
  qed
  have inj: "inj_on ppos (set new)"
  proof -
    have "distinct (map ppos new)"
      using allSafePositions_distinct [of t w h] by (simp add: nw(1))
    then show ?thesis by (simp add: distinct_map)
  qed
  have rn1: "rowsNonneg ps1"
    unfolding rowsNonneg_def
  proof
    fix p assume "p \<in> set ps1"
    then consider "p \<in> set ps" | "p \<in> set new" by (auto simp: ps1_def)
    then show "0 \<le> snd (ppos p)"
    proof cases
      case 1
      with rn show ?thesis by simp
    next
      case 2
      from allSafePositions_safe(3) [OF newpos [OF 2]] show ?thesis by simp
    qed
  qed
  have cp1: "cellsPlaced ?c ps1"
    unfolding cellsPlaced_def
  proof (intro ballI impI conjI)
    fix p assume p: "p \<in> set ps1" and pc: "isCellPrefab p"
    with nocell have pn: "p \<in> set new" by (auto simp: ps1_def)
    show "floorAt ?c (ppos p)"
      using allSafePositions_safe(1) [OF newpos [OF pn]] .
    fix q assume q: "q \<in> set ps1" and qp: "q \<noteq> p"
    show "ppos q \<noteq> ppos p"
    proof (cases "q \<in> set ps")
      case True
      with allSafePositions_safe(2) [OF newpos [OF pn]] show ?thesis
        by (auto simp: occupied_def prefabsOf_def pf prod_eq_iff)
    next
      case False
      with q have "q \<in> set new" by (simp add: ps1_def)
      with inj pn qp show ?thesis by (auto simp: inj_on_def)
    qed
  qed
  have pairs: "\<forall>(li, ci) \<in> set (zip (indicesWhere isLaserPrefab ps1) (indicesWhere isCellPrefab ps1)).
      li < length ps1 \<and> ci < length ps1 \<and> isCellPrefab (ps1 ! ci)"
  proof (clarify)
    fix li ci
    assume "(li, ci) \<in> set (zip (indicesWhere isLaserPrefab ps1) (indicesWhere isCellPrefab ps1))"
    then have "li \<in> set (indicesWhere isLaserPrefab ps1)"
      and "ci \<in> set (indicesWhere isCellPrefab ps1)"
      by (auto dest: set_zip_leftD set_zip_rightD)
    then show "li < length ps1 \<and> ci < length ps1 \<and> isCellPrefab (ps1 ! ci)"
      by (simp add: indicesWhere_def)
  qed
  from alignLoop_keeps [OF rn1 cp1 pairs]
  obtain ps2 where al: "alignLoop ?c
        (zip (indicesWhere isLaserPrefab ps1) (indicesWhere isCellPrefab ps1)) ps1 = Inr ps2"
    and rn2: "rowsNonneg ps2" and cp2: "cellsPlaced ?c ps2" and tg2: "tags ps2 = tags ps1"
    by blast
  define t2 where "t2 = t1\<lparr>prefabs := Some ps2\<rparr>"
  have c1: "collisionOf t1 = ?c" by (simp add: t1_def collisionOf_def)
  have bal: "balanceLaserAndPowerCells t = Inr t2"
    using l2 c0 add al
    by (simp add: balanceLaserAndPowerCells_def pf alignLasersAndPowerCells_def t1_def c1 t2_def
        collisionOf_def)
  have ids2: "map pid (filter isCellPrefab ps2) = map pid new"
  proof -
    have "map pid (filter isCellPrefab ps2) = map pid (filter isCellPrefab ps1)"
      by (simp add: cell_ids_of_tags tg2)
    also have "filter isCellPrefab ps1 = new"
      using nw(2) nocell by (simp add: ps1_def list_all_iff filter_empty_conv)
    finally show ?thesis .
  qed
  have cnt2: "length (filter isCellPrefab ps2) = min 2 (length ?S)"
  proof -
    have "length (filter isCellPrefab ps2) = length (map pid (filter isCellPrefab ps2))" by simp
    also have "\<dots> = length (map ppos new)" by (simp add: ids2)
    also have "\<dots> = min 2 (length ?S)" by (simp add: nw(1) min.commute)
    finally show ?thesis .
  qed
  have dist2: "distinct (map ppos (filter isCellPrefab ps2))"
  proof -
    have "distinct (map pid (filter isCellPrefab ps2))"
      using nw(3) by (simp add: ids2)
    then have d: "distinct (filter isCellPrefab ps2)"
      by (simp add: distinct_map)
    have "inj_on ppos (set (filter isCellPrefab ps2))"
      using cp2 by (auto simp: inj_on_def cellsPlaced_def)
    with d show ?thesis by (simp add: distinct_map)
  qed
  have other2: "\<forall>p \<in> set ps2. isCellPrefab p \<longrightarrow>
      floorAt ?c (ppos p) \<and> (\<forall>q \<in> set ps2. \<not> isCellPrefab q \<longrightarrow> ppos q \<noteq> ppos p)"
    using cp2 by (auto simp: cellsPlaced_def)
  show ?thesis
  proof (cases "collision t")
    case None
    then have "validateAndFixTile t = Inr t2"
      by (simp add: validateAndFixTile_def bal removeEntitiesInWalls_def t2_def t1_def)
    moreover have "prefabsOf t2 = ps2" "collisionOf t2 = ?c"
      by (simp_all add: t2_def t1_def prefabsOf_def collisionOf_def)
    ultimately show ?thesis
      using cnt2 dist2 other2 by (intro exI [of _ t2]) simp
  next
    case (Some c)
    then have cc: "?c = c" by (simp add: collisionOf_def)
    define t3 where "t3 = t2\<lparr>prefabs := Some (filter (keeps c) ps2)\<rparr>"
    have "validateAndFixTile t = Inr t3"
      using Some filterPrefabs_nonneg [OF rn2, of c]
      by (simp add: validateAndFixTile_def bal removeEntitiesInWalls_def t2_def t1_def t3_def)
    moreover have p3: "prefabsOf t3 = filter (keeps c) ps2" and c3: "collisionOf t3 = c"
      using Some by (simp_all add: t3_def t2_def t1_def prefabsOf_def collisionOf_def)
    moreover have same: "filter isCellPrefab (filter (keeps c) ps2) = filter isCellPrefab ps2"
    proof -
      have "isCellPrefab p \<and> keeps c p \<longleftrightarrow> isCellPrefab p" if "p \<in> set ps2" for p
        using other2 that floor_kept [of c p] cc by auto
      then show ?thesis
        by (simp add: conj_commute cong: filter_cong)
    qed
    moreover have "\<forall>p \<in> set (filter (keeps c) ps2). isCellPrefab p \<longrightarrow>
        floorAt c (ppos p)
        \<and> (\<forall>q \<in> set (filter (keeps c) ps2). \<not> isCellPrefab q \<longrightarrow> ppos q \<noteq> ppos p)"
      using other2 cc by simp
    ultimately show ?thesis
      using cnt2 dist2 by (intro exI [of _ t3]) simp
  qed
qed

definition tile_two_free :: tile where
  "tile_two_free = \<lparr> tid = ''room'', tsize = Some (4, 4), tstart = False, texit = False,
      collision = Some [''####'', ''#..#'', ''#..#'', ''####''], exits = [],
      prefabs = Some
        [\<lparr> ptype = ''LaserEmitter'', ppos = (1, 1), pdir = Some ''E'', pid = Some ''l1'' \<rparr>,
         \<lparr> ptype = ''LaserEmitter'', ppos = (2, 1), pdir = Some ''S'', pid = Some ''l2'' \<rparr>] \<rparr>"

theorem validateAndFixTile_adds_cells_witness:
  "length (filter isLaserPrefab (prefabsOf tile_two_free)) = 2
   \<and> length (filter isCellPrefab (prefabsOf tile_two_free)) = 0
   \<and> list_all (\<lambda>p. 0 \<le> snd (ppos p)) (prefabsOf tile_two_free)
   \<and> (\<exists>t'. validateAndFixTile tile_two_free = Inr t'
         \<and> length (filter isCellPrefab (prefabsOf t')) = 2
         \<and> distinct (map ppos (filter isCellPrefab (prefabsOf t')))
         \<and> list_all (\<lambda>p. floorAt (collisionOf t') (ppos p))
               (filter isCellPrefab (prefabsOf t')))"
proof -
  let ?ps = "[\<lparr> ptype = ''LaserEmitter'', ppos = (1, 1), pdir = Some ''E'', pid = Some ''l1'' \<rparr>,
         \<lparr> ptype = ''LaserEmitter'', ppos = (2, 1), pdir = Some ''S'', pid = Some ''l2'' \<rparr>]"
  have pf: "prefabs tile_two_free = Some ?ps" by (simp add: tile_two_free_def)
  have l2: "length (filter isLaserPrefab ?ps) = 2" by (simp add: isLaserPrefab_def)
  have c0: "length (filter isCellPrefab ?ps) = 0" by (simp add: isCellPrefab_def)
  have sz: "tsize tile_two_free = Some (4, 4)" by (simp add: tile_two_free_def)
  have rn: "\<forall>p \<in> set ?ps. 0 \<le> snd (ppos p)" by simp
  have n: "length (allSafePositions tile_two_free 4 4) = 2" by code_simp
  from validateAndFixTile_adds_cells [OF pf l2 c0 sz rn] n l2 c0 rn show ?thesis
    by (auto simp: prefabsOf_def pf list_all_iff)
qed

section \<open>Laser truncation\<close>


























section \<open>Doors, emitters and entities that are not solid\<close>















section \<open>Listener isolation\<close>

text \<open>
  What "every listener is called, a throwing one is logged" means, said directly: the
  listeners run in turn on the outside state, and the exceptions are collected.
\<close>

fun listenerRun :: "'w listener list \<Rightarrow> eventData \<Rightarrow> 'w \<Rightarrow> 'w \<times> string list" where
  "listenerRun [] d w = (w, [])"
| "listenerRun (cb # cbs) d w =
     (case cb d w of
        Returned w' \<Rightarrow> listenerRun cbs d w'
      | Threw e w' \<Rightarrow> (fst (listenerRun cbs d w'), e # snd (listenerRun cbs d w')))"

definition listenersOf :: "'w machine \<Rightarrow> string \<Rightarrow> 'w listener list" where
  "listenersOf m event =
     (case map_get (eventListeners (pm m)) event of None \<Rightarrow> [] | Some ls \<Rightarrow> ls)"

lemma listenerBody_returns:
  "listenerBody event d (i, cb) m
   = Returned (case cb d (world m) of
        Returned w \<Rightarrow> m\<lparr>invoked := invoked m @ [(event, i)], world := w\<rparr>
      | Threw e w \<Rightarrow> m\<lparr>invoked := invoked m @ [(event, i)], world := w,
                         console := console m @ [Warn_listener_error e]\<rparr>)"
  by (cases "cb d (world m)") (simp_all add: listenerBody_def tryCatch_def callListener_def)

lemma forEach_listenerBody:
  "length ixs = length ls \<Longrightarrow>
   forEach (listenerBody event d) (zip ixs ls) m
   = Returned (m\<lparr>invoked := invoked m @ map (\<lambda>i. (event, i)) ixs,
                 world := fst (listenerRun ls d (world m)),
                 console := console m @ map Warn_listener_error (snd (listenerRun ls d (world m)))\<rparr>)"
proof (induction ls arbitrary: ixs m)
  case Nil
  then show ?case by simp
next
  case (Cons cb cbs)
  then obtain i ixs' where ixs: "ixs = i # ixs'" and len: "length ixs' = length cbs"
    by (cases ixs) auto
  show ?case
    unfolding ixs
    by (cases "cb d (world m)")
       (simp_all add: Cons.IH [OF len] andThen_def listenerBody_returns)
qed

text \<open>
  C9. Whatever the listeners of an event do, \<open>emitEvent\<close> returns normally: every
  listener registered for the event is called, in registration order, each on the state
  the previous one left (also when the previous one threw); each exception is written to
  the console as a warning; and the power manager and the entities are as before the
  call.
\<close>

theorem emitEvent_isolates_listeners:
  "\<exists>m'. emitEvent event d m = Returned m'
      \<and> invoked m' = invoked m @ map (\<lambda>i. (event, i)) [0 ..< length (listenersOf m event)]
      \<and> world m' = fst (listenerRun (listenersOf m event) d (world m))
      \<and> console m' = console m
           @ map Warn_listener_error (snd (listenerRun (listenersOf m event) d (world m)))
           @ (if debugMode (pm m) then [Log_event event d] else [])
      \<and> emitted m' = emitted m @ [(event, d)]
      \<and> pm m' = pm m \<and> ents m' = ents m"
proof (cases "map_get (eventListeners (pm m)) event")
  case None
  then show ?thesis
    by (simp add: emitEvent_def andThen_def listenersOf_def)
next
  case (Some ls)
  then show ?thesis
    using forEach_listenerBody [of "[0 ..< length ls]" ls event d "m\<lparr>emitted := emitted m @ [(event, d)]\<rparr>"]
    by (simp add: emitEvent_def andThen_def listenersOf_def)
qed


section \<open>Re-emission of power events\<close>

lemma sqrt_le_iff_sq: "0 \<le> y \<Longrightarrow> (sqrt x \<le> y) = (x \<le> y * y)"
proof -
  assume y: "0 \<le> y"
  have "sqrt x \<le> y \<longleftrightarrow> sqrt x \<le> sqrt (y * y)" using y by simp
  also have "\<dots> \<longleftrightarrow> x \<le> y * y" by (rule real_sqrt_le_iff)
  finally show ?thesis .
qed

lemma sqrt_less_iff_sq: "0 \<le> y \<Longrightarrow> (sqrt x < y) = (x < y * y)"
proof -
  assume y: "0 \<le> y"
  have "sqrt x < y \<longleftrightarrow> sqrt x < sqrt (y * y)" using y by simp
  also have "\<dots> \<longleftrightarrow> x < y * y" by (rule real_sqrt_less_iff)
  finally show ?thesis .
qed

text \<open>
  One emitter facing East at the origin, one power cell four tiles to its right whose id
  has the form that the balance repair of the tile catalog gives
  (\<open>auto_cell_<tile>_<n>\<close>), and the emitter's beam ending on the cell.
\<close>

definition laser1 :: Entity where
  "laser1 = \<lparr> cname = ''LaserEmitter'', eid = ''laser1'', position = Vector2 0 0,
      ewidth = 64, eheight = 64, visible = True, active = True, solid = False,
      isOpen = False, isActive = True, direction = ''E'', isPowered = False,
      laserPowered = False \<rparr>"

definition cell1 :: Entity where
  "cell1 = \<lparr> cname = ''PowerCell'', eid = ''auto_cell_t_1'', position = Vector2 256 0,
      ewidth = 64, eheight = 64, visible = True, active = True, solid = True,
      isOpen = False, isActive = False, direction = [], isPowered = False,
      laserPowered = False \<rparr>"

definition beam1 :: LaserBeam where
  "beam1 = \<lparr> beam_start = Some (Vector2 34 32), beam_end = Some (Vector2 256 32) \<rparr>"

definition machine0 :: "unit machine" where
  "machine0 = \<lparr> pm = \<lparr> powerStates = [], laserStates = [], cellStates = [],
        eventListeners = [], lastUpdate = 0, debugMode = False, totalCellPowerings = 0,
        stats_totalPowerTime = 0 \<rparr>,
      ents = [laser1, cell1], world = (), console = [], clock = 1000, emitted = [],
      invoked = [] \<rparr>"

lemmas pm_defs = update_def updateLaserStates_def updatePowerCellStates_def
  updateConnectionStates_def updateStatistics_def updateLaserBody_def laserActiveStep_def
  laserRotateStep_def laserPositionStep_def cellBody_def cellEdge_def beamBody_def
  resetPowering_def lostBody_def findLaserForBeam_def findLaserStep_def
  pointToLineDistance_def getLaserStart_def getCenter_def getDirectionVector_def
  distance_def Vector2_add_def Vector2_multiply_def connectionKey_def
  setLaserState_def setCellState_def setPowerState_def emitEvent_def andThen_def
  indicesWhere_def isLaserEmitter_def isPowerCell_def initialize_def
  LaserPowerState_new_def connect_def disconnect_def updateTotalTime_def js_nth_def
  js_split_def
  LASER_HIT_CELL_def LASER_LOST_CELL_def CELL_POWERED_def CELL_UNPOWERED_def
  LASER_ACTIVATED_def LASER_DEACTIVATED_def LASER_ROTATED_def

text \<open>
  C1, evaluated. Two ticks with the same entities and the same beam: the first emits
  \<open>laser_hit_cell\<close>, \<open>cell_powered\<close> and at once \<open>laser_lost_cell\<close>, because the final
  pass splits the connection key \<open>laser1_auto_cell_t_1\<close> at every underscore and looks
  for a cell with the id \<open>auto\<close>; the second tick, with nothing changed, emits
  \<open>laser_hit_cell\<close> (and \<open>laser_lost_cell\<close>) again. \<open>cell_powered\<close> is emitted once.
\<close>

theorem update_reemits_laser_hit_cell:
  "(case update [beam1] (initialize machine0) of
      Returned m1 \<Rightarrow>
        (case update [beam1] m1 of
           Returned m2 \<Rightarrow> (map fst (emitted m1), map fst (emitted m2))
         | Threw e m2 \<Rightarrow> ([], []))
    | Threw e m1 \<Rightarrow> ([], []))
   = ([''laser_hit_cell'', ''cell_powered'', ''laser_lost_cell''],
      [''laser_hit_cell'', ''cell_powered'', ''laser_lost_cell'',
       ''laser_hit_cell'', ''laser_lost_cell''])"
  by (simp add: pm_defs machine0_def laser1_def cell1_def beam1_def Let_def upt_rec
      sqrt_le_iff_sq sqrt_less_iff_sq)

section \<open>Growth of the room graph\<close>

text \<open>
  The keys of the room map in insertion order, and two properties of the map that the
  generation keeps: every room is stored under its own grid coordinates, and no room is
  marked as exit before \<open>generateExitRoom\<close> runs.
\<close>

definition keysOf :: "WorldManager \<Rightarrow> (int \<times> int) list" where
  "keysOf wm = map fst (rooms wm)"

definition keyed :: "WorldManager \<Rightarrow> bool" where
  "keyed wm \<longleftrightarrow> list_all (\<lambda>(k, r). k = (roomX r, roomY r)) (rooms wm)"

definition noExitYet :: "WorldManager \<Rightarrow> bool" where
  "noExitYet wm \<longleftrightarrow> list_all (\<lambda>(k, r). \<not> isExit r) (rooms wm)"

lemma map_get_None_iff: "map_get m k = None \<longleftrightarrow> k \<notin> set (map fst m)"
  by (induction m k rule: map_get.induct) auto

lemma map_set_absent: "map_get m k = None \<Longrightarrow> map_set m k v = m @ [(k, v)]"
  by (induction m k rule: map_get.induct) (auto split: if_splits)

lemma adjust_rooms:
  "map fst (rooms (adjustAllRoomsPosition ox oy wm)) = map fst (rooms wm)"
  "keyed (adjustAllRoomsPosition ox oy wm) = keyed wm"
  "noExitYet (adjustAllRoomsPosition ox oy wm) = noExitYet wm"
  "levelConstraints (adjustAllRoomsPosition ox oy wm) = levelConstraints wm"
  "levelBounds (adjustAllRoomsPosition ox oy wm) = levelBounds wm"
  "exitRoomsGenerated (adjustAllRoomsPosition ox oy wm) = exitRoomsGenerated wm"
  "generatedRooms (adjustAllRoomsPosition ox oy wm) = generatedRooms wm"
  "startRoom (adjustAllRoomsPosition ox oy wm) = startRoom wm"
  by (auto simp: adjustAllRoomsPosition_def keyed_def noExitYet_def list_all_iff
      case_prod_unfold comp_def)

lemma optimal_rooms:
  assumes "calculateOptimalRoomPosition wm x y rd = (w, wm')"
  shows "map fst (rooms wm') = map fst (rooms wm)" "keyed wm' = keyed wm"
    "noExitYet wm' = noExitYet wm" "levelConstraints wm' = levelConstraints wm"
    "levelBounds wm' = levelBounds wm" "exitRoomsGenerated wm' = exitRoomsGenerated wm"
    "generatedRooms wm' = generatedRooms wm" "startRoom wm' = startRoom wm"
proof -
  from assms have "wm' = snd (calculateOptimalRoomPosition wm x y rd)" by simp
  then show "map fst (rooms wm') = map fst (rooms wm)" "keyed wm' = keyed wm"
    "noExitYet wm' = noExitYet wm" "levelConstraints wm' = levelConstraints wm"
    "levelBounds wm' = levelBounds wm" "exitRoomsGenerated wm' = exitRoomsGenerated wm"
    "generatedRooms wm' = generatedRooms wm" "startRoom wm' = startRoom wm"
    by (simp_all add: calculateOptimalRoomPosition_def Let_def adjust_rooms)
qed

lemma generateRoomAt_rooms:
  assumes g: "generateRoomAt catalog x y wm = Inr (placed, wm')"
  shows "levelConstraints wm' = levelConstraints wm \<and> levelBounds wm' = levelBounds wm
    \<and> exitRoomsGenerated wm' = exitRoomsGenerated wm \<and> startRoom wm' = startRoom wm
    \<and> keysOf wm' = (if placed then keysOf wm @ [(x, y)] else keysOf wm)
    \<and> (placed \<longrightarrow> (x, y) \<notin> set (keysOf wm))
    \<and> (keyed wm \<longrightarrow> keyed wm') \<and> (noExitYet wm \<longrightarrow> noExitYet wm')"
proof (cases placed)
  case False
  with g have "wm' = wm"
    by (auto simp: generateRoomAt_def Let_def split: if_splits prod.splits option.splits)
  with False show ?thesis by simp
next
  case True
  with g obtain chosenTile st wX wY wm1 where
    none: "getRoom wm x y = None"
    and opt: "calculateOptimalRoomPosition (wm\<lparr>rng := st\<rparr>) x y chosenTile = ((wX, wY), wm1)"
    and wm': "wm' = (createRoom chosenTile wX wY x y wm1)\<lparr>generatedRooms := generatedRooms wm1 + 1\<rparr>"
    by (auto simp: generateRoomAt_def Let_def split: if_splits prod.splits option.splits)
  note o = optimal_rooms [OF opt]
  from none have absent: "(x, y) \<notin> set (map fst (rooms wm))"
    by (simp add: getRoom_def map_get_None_iff)
  with o(1) have "map_get (rooms wm1) (x, y) = None"
    by (simp add: map_get_None_iff)
  then have r': "rooms wm' = rooms wm1 @ [((x, y), WorldRoom_new chosenTile wX wY x y)]"
    by (simp add: wm' createRoom_def map_set_absent)
  from o have k: "keyed wm1 = keyed wm" "noExitYet wm1 = noExitYet wm"
    by (simp_all add: keyed_def noExitYet_def)
  have c: "levelConstraints wm' = levelConstraints wm" "levelBounds wm' = levelBounds wm"
    "exitRoomsGenerated wm' = exitRoomsGenerated wm" "startRoom wm' = startRoom wm"
    using o by (simp_all add: wm' createRoom_def)
  have ks: "keysOf wm' = keysOf wm @ [(x, y)]"
    using o(1) by (simp add: keysOf_def r')
  have kd: "keyed wm \<longrightarrow> keyed wm'" "noExitYet wm \<longrightarrow> noExitYet wm'"
    using k by (simp_all add: keyed_def noExitYet_def r' WorldRoom_new_def)
  from True absent c ks kd show ?thesis by (simp add: keysOf_def)
qed

lemma splice1_Some:
  assumes "splice1 xs i = (Some x, rest)"
  shows "x \<in> set xs" "set rest \<subseteq> set xs"
proof -
  let ?n = "int (length xs)"
  let ?k = "if i < 0 then max (?n + i) 0 else min i ?n"
  from assms have k: "?k < ?n" and x: "x = xs ! nat ?k"
    and r: "rest = take (nat ?k) xs @ drop (Suc (nat ?k)) xs"
    by (auto simp: splice1_def Let_def split: if_splits)
  have "0 \<le> ?k" by simp
  with k have "nat ?k < length xs" by linarith
  with x show "x \<in> set xs" by simp
  show "set rest \<subseteq> set xs"
    unfolding r by (auto dest: in_set_takeD in_set_dropD)
qed

text \<open>
  The adjacency graph on a set of grid cells, and what it means that a set of cells has
  grown out of another: every cell of the larger set is reached from a cell of the smaller
  one over 4-neighbour steps inside the larger set.
\<close>

definition gridEdges :: "(int \<times> int) set \<Rightarrow> ((int \<times> int) \<times> (int \<times> int)) set" where
  "gridEdges K = {(a, b). a \<in> K \<and> b \<in> K \<and> b \<in> set (adjacent4 a)}"

definition grownFrom :: "(int \<times> int) set \<Rightarrow> (int \<times> int) set \<Rightarrow> bool" where
  "grownFrom K K' \<longleftrightarrow> K \<subseteq> K' \<and> (\<forall>k \<in> K'. \<exists>c \<in> K. (c, k) \<in> (gridEdges K')\<^sup>*)"

lemma gridEdges_mono: "K \<subseteq> K' \<Longrightarrow> (gridEdges K)\<^sup>* \<subseteq> (gridEdges K')\<^sup>*"
  by (rule rtrancl_mono) (auto simp: gridEdges_def)

lemma grownFrom_refl: "grownFrom K K"
  by (auto simp: grownFrom_def)

lemma grownFrom_trans:
  assumes "grownFrom K K'" "grownFrom K' K''"
  shows "grownFrom K K''"
  unfolding grownFrom_def
proof (intro conjI ballI)
  show "K \<subseteq> K''" using assms by (auto simp: grownFrom_def)
  fix k assume "k \<in> K''"
  with assms(2) obtain c' where c': "c' \<in> K'" "(c', k) \<in> (gridEdges K'')\<^sup>*"
    by (auto simp: grownFrom_def)
  with assms(1) obtain c where c: "c \<in> K" "(c, c') \<in> (gridEdges K')\<^sup>*"
    by (auto simp: grownFrom_def)
  from assms(2) have "K' \<subseteq> K''" by (simp add: grownFrom_def)
  from gridEdges_mono [OF this] c(2) have "(c, c') \<in> (gridEdges K'')\<^sup>*" by blast
  with c' c(1) show "\<exists>c \<in> K. (c, k) \<in> (gridEdges K'')\<^sup>*"
    by (meson rtrancl_trans)
qed

lemma grownFrom_insert:
  assumes "c \<in> K" "p \<in> set (adjacent4 c)"
  shows "grownFrom K (insert p K)"
  unfolding grownFrom_def
proof (intro conjI ballI)
  show "K \<subseteq> insert p K" by blast
  fix k assume "k \<in> insert p K"
  then consider "k = p" | "k \<in> K" by blast
  then show "\<exists>c \<in> K. (c, k) \<in> (gridEdges (insert p K))\<^sup>*"
  proof cases
    case 1
    from assms have "(c, p) \<in> gridEdges (insert p K)" by (simp add: gridEdges_def)
    with assms(1) 1 show ?thesis by blast
  next
    case 2
    then show ?thesis by blast
  qed
qed

lemma keysOf_rng [simp]: "keysOf (wm\<lparr>rng := r\<rparr>) = keysOf wm"
  by (simp add: keysOf_def)

lemma keyed_rng [simp]: "keyed (wm\<lparr>rng := r\<rparr>) = keyed wm"
  by (simp add: keyed_def)

lemma noExitYet_rng [simp]: "noExitYet (wm\<lparr>rng := r\<rparr>) = noExitYet wm"
  by (simp add: noExitYet_def)

text \<open>What one step of generation keeps.\<close>

definition keeps_frame :: "WorldManager \<Rightarrow> WorldManager \<Rightarrow> bool" where
  "keeps_frame wm wm' \<longleftrightarrow>
     levelConstraints wm' = levelConstraints wm \<and> levelBounds wm' = levelBounds wm
     \<and> exitRoomsGenerated wm' = exitRoomsGenerated wm \<and> startRoom wm' = startRoom wm
     \<and> (keyed wm \<longrightarrow> keyed wm') \<and> (noExitYet wm \<longrightarrow> noExitYet wm')
     \<and> (distinct (keysOf wm) \<longrightarrow> distinct (keysOf wm'))"

lemma keeps_frame_refl: "keeps_frame wm wm"
  by (simp add: keeps_frame_def)

lemma keeps_frame_rng: "keeps_frame wm (wm\<lparr>rng := r\<rparr>)"
  by (simp add: keeps_frame_def)

lemma keeps_frame_trans: "keeps_frame a b \<Longrightarrow> keeps_frame b c \<Longrightarrow> keeps_frame a c"
  by (simp add: keeps_frame_def)

lemma generateRoomAt_frame:
  assumes "generateRoomAt catalog x y wm = Inr (placed, wm')"
  shows "keeps_frame wm wm'"
  using generateRoomAt_rooms [OF assms] by (auto simp: keeps_frame_def)

lemma generateRoomAt_grown:
  assumes g: "generateRoomAt catalog x y wm = Inr (placed, wm')"
    and c: "c \<in> set (keysOf wm)" "(x, y) \<in> set (adjacent4 c)"
  shows "grownFrom (set (keysOf wm)) (set (keysOf wm'))"
    and "set (keysOf wm') = (if placed then insert (x, y) (set (keysOf wm)) else set (keysOf wm))"
proof -
  from generateRoomAt_rooms [OF g]
  have k: "keysOf wm' = (if placed then keysOf wm @ [(x, y)] else keysOf wm)" by simp
  then show "set (keysOf wm') = (if placed then insert (x, y) (set (keysOf wm)) else set (keysOf wm))"
    by simp
  show "grownFrom (set (keysOf wm)) (set (keysOf wm'))"
  proof (cases placed)
    case True
    with k grownFrom_insert [OF c] show ?thesis by simp
  next
    case False
    with k show ?thesis by (simp add: grownFrom_refl)
  qed
qed

lemma addRooms_Suc:
  assumes "addRooms catalog (Suc n) adj (wm, q, gp) = Inr res" "length adj \<noteq> 0"
  shows "\<exists>posIndex r newPos rest placed wm1.
      splice1 adj posIndex = (Some newPos, rest)
      \<and> generateRoomAt catalog (fst newPos) (snd newPos) (wm\<lparr>rng := r\<rparr>) = Inr (placed, wm1)
      \<and> addRooms catalog n rest
           (if placed then (wm1, q @ [newPos], gp @ [newPos]) else (wm1, q, gp)) = Inr res"
proof -
  obtain posIndex r where ri: "randomInt 0 (int (length adj)) (rng wm) = (posIndex, r)"
    by (cases "randomInt 0 (int (length adj)) (rng wm)")
  obtain np rest where sp: "splice1 adj posIndex = (np, rest)"
    by (cases "splice1 adj posIndex")
  from assms ri sp obtain newPos where np: "np = Some newPos"
    by (cases np) auto
  from assms ri sp np obtain placed wm1 where
    g: "generateRoomAt catalog (fst newPos) (snd newPos) (wm\<lparr>rng := r\<rparr>) = Inr (placed, wm1)"
    by (cases "generateRoomAt catalog (fst newPos) (snd newPos) (wm\<lparr>rng := r\<rparr>)") auto
  from assms ri sp np g have "addRooms catalog n rest
      (if placed then (wm1, q @ [newPos], gp @ [newPos]) else (wm1, q, gp)) = Inr res"
    by simp
  with sp np g show ?thesis by blast
qed

lemma addRooms_inv:
  assumes "addRooms catalog n adj (wm, q, gp) = Inr (wm', q', gp')"
    and "c \<in> set (keysOf wm)" "set adj \<subseteq> set (adjacent4 c)"
  shows "keeps_frame wm wm' \<and> grownFrom (set (keysOf wm)) (set (keysOf wm'))
      \<and> (set q \<subseteq> set (keysOf wm) \<longrightarrow> set q' \<subseteq> set (keysOf wm'))"
  using assms
proof (induction n arbitrary: adj wm q gp)
  case 0
  then show ?case by (simp add: keeps_frame_refl grownFrom_refl)
next
  case (Suc n)
  show ?case
  proof (cases "length adj = 0")
    case True
    with Suc.prems(1) show ?thesis by (simp add: keeps_frame_refl grownFrom_refl)
  next
    case False
    from addRooms_Suc [OF Suc.prems(1) False] obtain posIndex r newPos rest placed wm1 where
      sp: "splice1 adj posIndex = (Some newPos, rest)"
      and g: "generateRoomAt catalog (fst newPos) (snd newPos) (wm\<lparr>rng := r\<rparr>) = Inr (placed, wm1)"
      and rec: "addRooms catalog n rest
           (if placed then (wm1, q @ [newPos], gp @ [newPos]) else (wm1, q, gp)) = Inr (wm', q', gp')"
      by blast
    note s = splice1_Some [OF sp]
    from s(1) Suc.prems(3) have adjc: "(fst newPos, snd newPos) \<in> set (adjacent4 c)" by auto
    have cr: "c \<in> set (keysOf (wm\<lparr>rng := r\<rparr>))" using Suc.prems(2) by simp
    note gg = generateRoomAt_grown [OF g cr adjc]
    from gg(1) have g1: "grownFrom (set (keysOf wm)) (set (keysOf wm1))" by simp
    then have c1: "c \<in> set (keysOf wm1)" using Suc.prems(2) by (auto simp: grownFrom_def)
    have rest: "set rest \<subseteq> set (adjacent4 c)" using s(2) Suc.prems(3) by blast
    have f1: "keeps_frame wm wm1"
      using keeps_frame_trans [OF keeps_frame_rng generateRoomAt_frame [OF g]] .
    show ?thesis
    proof (cases placed)
      case True
      with rec have "addRooms catalog n rest (wm1, q @ [newPos], gp @ [newPos]) = Inr (wm', q', gp')"
        by simp
      from Suc.IH [OF this c1 rest] f1 g1 gg(2) True show ?thesis
        by (auto intro: keeps_frame_trans grownFrom_trans)
    next
      case False
      with rec have "addRooms catalog n rest (wm1, q, gp) = Inr (wm', q', gp')"
        by simp
      from Suc.IH [OF this c1 rest] f1 g1 gg(2) False show ?thesis
        by (auto intro: keeps_frame_trans grownFrom_trans)
    qed
  qed
qed

text \<open>
  The outer loop takes its position from the queue, which holds placed rooms only; the
  top-up pass takes positions that \<open>hasAdjacentRoom\<close> accepted.
\<close>

declare generationLoop.simps [simp del]

lemma generationLoop_inv:
  assumes "generationLoop catalog (wm, q, gp) = Inr wm'" "set q \<subseteq> set (keysOf wm)"
  shows "keeps_frame wm wm' \<and> grownFrom (set (keysOf wm)) (set (keysOf wm'))"
  using assms
proof (induction catalog "(wm, q, gp)" arbitrary: wm q gp rule: generationLoop.induct)
  case (1 catalog)
  show ?case
  proof (cases "generatedRooms wm < maxRooms (levelConstraints wm) - 1 \<and> length q > 0")
    case False
    with "1.prems"(1) have "wm' = wm"
      by (auto simp add: generationLoop.simps [of catalog "(wm, q, gp)"] split: if_splits)
    then show ?thesis by (simp add: keeps_frame_refl grownFrom_refl)
  next
    case True
    let ?adj = "getValidAdjacentPositions wm (hd q) gp"
    obtain k r where kr: "randomInt 1 3 (rng wm) = (k, r)"
      by (cases "randomInt 1 3 (rng wm)")
    let ?n = "min k (min (maxRooms (levelConstraints wm) - 1 - generatedRooms wm)
                       (int (length ?adj)))"
    from "1.prems"(1) True kr obtain st' where
      a: "addRooms catalog (nat ?n) ?adj (wm\<lparr>rng := r\<rparr>, tl q, gp) = Inr st'"
      and l: "generationLoop catalog st' = Inr wm'"
      by (simp add: generationLoop.simps [of catalog "(wm, q, gp)"] Let_def split: sum.splits)
    obtain wm1 q1 gp1 where st': "st' = (wm1, q1, gp1)" by (cases st') auto
    from True "1.prems"(2) have hq: "hd q \<in> set (keysOf (wm\<lparr>rng := r\<rparr>))"
      by (cases q) auto
    have sub: "set ?adj \<subseteq> set (adjacent4 (hd q))"
      by (auto simp: getValidAdjacentPositions_def)
    have tq: "set (tl q) \<subseteq> set (keysOf (wm\<lparr>rng := r\<rparr>))"
    proof (cases q)
      case Nil
      then show ?thesis by simp
    next
      case (Cons x xs)
      with "1.prems"(2) show ?thesis by auto
    qed
    from addRooms_inv [OF a [unfolded st'] hq sub] tq
    have i1: "keeps_frame (wm\<lparr>rng := r\<rparr>) wm1"
      "grownFrom (set (keysOf wm)) (set (keysOf wm1))" "set q1 \<subseteq> set (keysOf wm1)"
      by simp_all
    from "1.hyps" [OF refl refl True refl refl kr [symmetric] refl a [unfolded st'] l [unfolded st'] i1(3)]
    have i2: "keeps_frame wm1 wm'" "grownFrom (set (keysOf wm1)) (set (keysOf wm'))"
      by simp_all
    from i1 i2 keeps_frame_rng [of wm r] show ?thesis
      by (blast intro: keeps_frame_trans grownFrom_trans)
  qed
qed

lemma topUp_Suc:
  assumes "topUp catalog (Suc n) av wm = Inr res" "length av \<noteq> 0"
  shows "\<exists>posIndex r pos rest placed wm1.
      splice1 av posIndex = (Some pos, rest)
      \<and> generateRoomAt catalog (fst pos) (snd pos) (wm\<lparr>rng := r\<rparr>) = Inr (placed, wm1)
      \<and> topUp catalog n rest wm1 = Inr res"
proof -
  obtain posIndex r where ri: "randomInt 0 (int (length av)) (rng wm) = (posIndex, r)"
    by (cases "randomInt 0 (int (length av)) (rng wm)")
  obtain np rest where sp: "splice1 av posIndex = (np, rest)"
    by (cases "splice1 av posIndex")
  from assms ri sp obtain pos where np: "np = Some pos"
    by (cases np) auto
  from assms ri sp np obtain placed wm1 where
    g: "generateRoomAt catalog (fst pos) (snd pos) (wm\<lparr>rng := r\<rparr>) = Inr (placed, wm1)"
    by (cases "generateRoomAt catalog (fst pos) (snd pos) (wm\<lparr>rng := r\<rparr>)") auto
  from assms ri sp np g have "topUp catalog n rest wm1 = Inr res"
    by simp
  with sp np g show ?thesis by blast
qed

lemma topUp_inv:
  assumes "topUp catalog n av wm = Inr wm'"
    and "\<forall>p \<in> set av. \<exists>c \<in> K. p \<in> set (adjacent4 c)" "K \<subseteq> set (keysOf wm)"
  shows "keeps_frame wm wm' \<and> grownFrom (set (keysOf wm)) (set (keysOf wm'))"
  using assms
proof (induction n arbitrary: av wm)
  case 0
  then show ?case by (simp add: keeps_frame_refl grownFrom_refl)
next
  case (Suc n)
  show ?case
  proof (cases "length av = 0")
    case True
    with Suc.prems(1) show ?thesis by (simp add: keeps_frame_refl grownFrom_refl)
  next
    case False
    from topUp_Suc [OF Suc.prems(1) False] obtain posIndex r pos rest placed wm1 where
      sp: "splice1 av posIndex = (Some pos, rest)"
      and g: "generateRoomAt catalog (fst pos) (snd pos) (wm\<lparr>rng := r\<rparr>) = Inr (placed, wm1)"
      and rec: "topUp catalog n rest wm1 = Inr wm'"
      by blast
    note s = splice1_Some [OF sp]
    from s(1) Suc.prems(2) obtain c where c: "c \<in> K" "pos \<in> set (adjacent4 c)" by blast
    with Suc.prems(3) have cr: "c \<in> set (keysOf (wm\<lparr>rng := r\<rparr>))" by auto
    from c(2) have adjc: "(fst pos, snd pos) \<in> set (adjacent4 c)" by simp
    note gg = generateRoomAt_grown [OF g cr adjc]
    from gg(1) have g1: "grownFrom (set (keysOf wm)) (set (keysOf wm1))" by simp
    then have K1: "K \<subseteq> set (keysOf wm1)" using Suc.prems(3) by (auto simp: grownFrom_def)
    have rest: "\<forall>p \<in> set rest. \<exists>c \<in> K. p \<in> set (adjacent4 c)"
      using s(2) Suc.prems(2) by blast
    have f1: "keeps_frame wm wm1"
      using keeps_frame_trans [OF keeps_frame_rng generateRoomAt_frame [OF g]] .
    from Suc.IH [OF rec rest K1] f1 g1 show ?thesis
      by (blast intro: keeps_frame_trans grownFrom_trans)
  qed
qed

lemma adjacent4_sym: "p \<in> set (adjacent4 c) \<Longrightarrow> c \<in> set (adjacent4 p)"
  by (cases p; cases c) (auto simp: adjacent4_def)

lemma availablePositions_adjacent:
  assumes "p \<in> set (availablePositions wm)"
  shows "\<exists>c \<in> set (keysOf wm). p \<in> set (adjacent4 c)"
proof -
  from assms have "hasAdjacentRoom wm (fst p) (snd p)"
    by (auto simp: availablePositions_def)
  then obtain c where c: "c \<in> set (adjacent4 p)" "getRoom wm (fst c) (snd c) \<noteq> None"
    by (auto simp: hasAdjacentRoom_def list_ex_iff)
  from c(2) have "c \<in> set (keysOf wm)"
    by (simp add: getRoom_def map_get_None_iff keysOf_def)
  with adjacent4_sym [OF c(1)] show ?thesis by blast
qed

lemma ensureMinimumRooms_inv:
  assumes "ensureMinimumRooms catalog wm = Inr wm'"
  shows "keeps_frame wm wm' \<and> grownFrom (set (keysOf wm)) (set (keysOf wm'))"
proof (cases "generatedRooms wm + 1 < minRooms (levelConstraints wm)")
  case True
  with assms have t: "topUp catalog (nat (minRooms (levelConstraints wm) - (generatedRooms wm + 1)))
      (availablePositions wm) wm = Inr wm'"
    by (simp add: ensureMinimumRooms_def Let_def)
  show ?thesis
    by (rule topUp_inv [OF t _ subset_refl]) (simp add: availablePositions_adjacent)
next
  case False
  with assms show ?thesis
    by (simp add: ensureMinimumRooms_def Let_def keeps_frame_refl grownFrom_refl)
qed

section \<open>The scan for the exit room\<close>

definition manhattan :: "WorldRoom \<Rightarrow> int" where
  "manhattan r = \<bar>roomX r\<bar> + \<bar>roomY r\<bar>"

lemma generateStartRoom_rooms:
  assumes "filter tstart catalog \<noteq> []" "generateStartRoom catalog wm = Inr wm1" "rooms wm = []"
  shows "keysOf wm1 = [(0, 0)]" "keyed wm1" "noExitYet wm1" "startRoom wm1 = Some (0, 0)"
    "levelConstraints wm1 = levelConstraints wm" "levelBounds wm1 = levelBounds wm"
    "exitRoomsGenerated wm1 = exitRoomsGenerated wm"
  using assms
  by (auto simp: generateStartRoom_def Let_def createRoom_def keysOf_def keyed_def noExitYet_def
      WorldRoom_new_def split: prod.splits option.splits)

lemma exitStep_scan:
  "case foldl exitStep (None, - 1) (zip [0 ..< length rs] rs) of (b, m) \<Rightarrow>
     (if rs = [] then b = None \<and> m = - 1
      else \<exists>i < length rs. b = Some i \<and> m = manhattan (rs ! i)
             \<and> (\<forall>j < length rs. manhattan (rs ! j) \<le> m)
             \<and> (\<forall>j < i. manhattan (rs ! j) < m))"
proof (induction rs rule: rev_induct)
  case Nil
  show ?case by simp
next
  case (snoc r rs)
  obtain b m where f: "foldl exitStep (None, - 1) (zip [0 ..< length rs] rs) = (b, m)"
    by (cases "foldl exitStep (None, - 1) (zip [0 ..< length rs] rs)")
  have z: "zip [0 ..< length (rs @ [r])] (rs @ [r]) = zip [0 ..< length rs] rs @ [(length rs, r)]"
    by simp
  have step: "foldl exitStep (None, - 1) (zip [0 ..< length (rs @ [r])] (rs @ [r]))
      = exitStep (b, m) (length rs, r)"
    unfolding z by (simp add: f)
  have nn: "0 \<le> manhattan r" by (simp add: manhattan_def)
  show ?case
  proof (cases "rs = []")
    case True
    with snoc f have "b = None" "m = - 1" by simp_all
    with True nn show ?thesis
      unfolding step by (simp add: exitStep_def manhattan_def [symmetric] Let_def)
  next
    case False
    with snoc f obtain i where i: "i < length rs" "b = Some i" "m = manhattan (rs ! i)"
      "\<forall>j < length rs. manhattan (rs ! j) \<le> m" "\<forall>j < i. manhattan (rs ! j) < m"
      by auto
    show ?thesis
    proof (cases "manhattan r > m")
      case True
      then have e: "exitStep (b, m) (length rs, r) = (Some (length rs), manhattan r)"
        by (simp add: exitStep_def manhattan_def Let_def)
      have "\<forall>j < length (rs @ [r]). manhattan ((rs @ [r]) ! j) \<le> manhattan r"
      proof (intro allI impI)
        fix j assume "j < length (rs @ [r])"
        then consider "j < length rs" | "j = length rs" by fastforce
        then show "manhattan ((rs @ [r]) ! j) \<le> manhattan r"
        proof cases
          case 1
          with i(4) have "manhattan (rs ! j) \<le> m" by simp
          with 1 True show ?thesis by (simp add: nth_append)
        next
          case 2
          then show ?thesis by simp
        qed
      qed
      moreover have "\<forall>j < length rs. manhattan ((rs @ [r]) ! j) < manhattan r"
      proof (intro allI impI)
        fix j assume j: "j < length rs"
        with i(4) have "manhattan (rs ! j) \<le> m" by simp
        with j True show "manhattan ((rs @ [r]) ! j) < manhattan r" by (simp add: nth_append)
      qed
      ultimately show ?thesis
        unfolding step e by simp
    next
      case False
      then have e: "exitStep (b, m) (length rs, r) = (b, m)"
        by (simp add: exitStep_def manhattan_def Let_def)
      have "\<forall>j < length (rs @ [r]). manhattan ((rs @ [r]) ! j) \<le> m"
      proof (intro allI impI)
        fix j assume "j < length (rs @ [r])"
        then consider "j < length rs" | "j = length rs" by fastforce
        then show "manhattan ((rs @ [r]) ! j) \<le> m"
        proof cases
          case 1
          with i(4) show ?thesis by (simp add: nth_append)
        next
          case 2
          with False show ?thesis by simp
        qed
      qed
      moreover have "\<forall>j < i. manhattan ((rs @ [r]) ! j) < m"
        using i(1,5) by (simp add: nth_append)
      moreover have "m = manhattan ((rs @ [r]) ! i)" using i(1,3) by (simp add: nth_append)
      ultimately show ?thesis
        unfolding step e using i(1,2) by (simp add: less_SucI) 
    qed
  qed
qed

definition roomCoords :: "WorldManager \<Rightarrow> (int \<times> int) list" where
  "roomCoords wm = map (\<lambda>(k, r). (roomX r, roomY r)) (rooms wm)"


lemma keyed_nth:
  assumes "keyed wm" "j < length (rooms wm)"
  shows "fst (rooms wm ! j) = (roomX (snd (rooms wm ! j)), roomY (snd (rooms wm ! j)))"
proof -
  from assms(2) have "rooms wm ! j \<in> set (rooms wm)" by simp
  with assms(1) show ?thesis by (auto simp: keyed_def list_all_iff)
qed

lemma generateExitRoom_marks:
  assumes ne: "rooms wm \<noteq> []"
    and ex: "exitRoomsGenerated wm < maxExits (levelConstraints wm)"
  shows "\<exists>i < length (rooms wm).
      generateExitRoom wm = wm\<lparr>rooms := (rooms wm)[i :=
          (fst (rooms wm ! i),
           (snd (rooms wm ! i))\<lparr>isExit := True,
               roomData := (roomData (snd (rooms wm ! i)))\<lparr>texit := True\<rparr>\<rparr>)],
        exitRoomsGenerated := exitRoomsGenerated wm + 1\<rparr>
      \<and> (\<forall>j < length (rooms wm).
            manhattan (snd (rooms wm ! j)) \<le> manhattan (snd (rooms wm ! i)))
      \<and> (\<forall>j < i. manhattan (snd (rooms wm ! j)) < manhattan (snd (rooms wm ! i)))"
proof -
  let ?rs = "map snd (rooms wm)"
  obtain b m where f: "foldl exitStep (None, - 1) (zip [0 ..< length (rooms wm)] ?rs) = (b, m)"
    by (cases "foldl exitStep (None, - 1) (zip [0 ..< length (rooms wm)] ?rs)")
  from exitStep_scan [of ?rs] f ne obtain i where i: "i < length (rooms wm)" "b = Some i"
    "\<forall>j < length (rooms wm). manhattan (?rs ! j) \<le> manhattan (?rs ! i)"
    "\<forall>j < i. manhattan (?rs ! j) < manhattan (?rs ! i)"
    by auto
  from ne ex f i(2) have "generateExitRoom wm = wm\<lparr>rooms := (rooms wm)[i :=
          (fst (rooms wm ! i),
           (snd (rooms wm ! i))\<lparr>isExit := True,
               roomData := (roomData (snd (rooms wm ! i)))\<lparr>texit := True\<rparr>\<rparr>)],
        exitRoomsGenerated := exitRoomsGenerated wm + 1\<rparr>"
    by (simp add: generateExitRoom_def)
  moreover from i(1,3) have "\<forall>j < length (rooms wm).
      manhattan (snd (rooms wm ! j)) \<le> manhattan (snd (rooms wm ! i))" by simp
  moreover from i(1,4) have "\<forall>j < i. manhattan (snd (rooms wm ! j)) < manhattan (snd (rooms wm ! i))"
    by simp
  ultimately show ?thesis using i(1) by blast
qed

text \<open>The level before the exit room is chosen.\<close>

definition blank :: "WorldManager \<Rightarrow> bool" where
  "blank wm \<longleftrightarrow> rooms wm = [] \<and> exitRoomsGenerated wm = 0 \<and> maxExits (levelConstraints wm) = 1"

lemma generateFiniteLevel_inv:
  assumes start: "filter tstart catalog \<noteq> []"
    and b: "blank wm"
    and g: "generateFiniteLevel catalog wm = Inr wm'"
  shows "\<exists>wm3. wm' = generateExitRoom wm3 \<and> keyed wm3 \<and> noExitYet wm3 \<and> distinct (keysOf wm3)
      \<and> grownFrom {(0, 0)} (set (keysOf wm3)) \<and> startRoom wm3 = Some (0, 0)
      \<and> exitRoomsGenerated wm3 = 0 \<and> maxExits (levelConstraints wm3) = 1"
proof -
  from g obtain wm1 wm2 wm3 where
    s1: "generateStartRoom catalog wm = Inr wm1"
    and s2: "generationLoop catalog (wm1, [(0, 0)], [(0, 0)]) = Inr wm2"
    and s3: "ensureMinimumRooms catalog wm2 = Inr wm3"
    and s4: "wm' = generateExitRoom wm3"
    by (auto simp: generateFiniteLevel_def split: sum.splits)
  from b have r: "rooms wm = []" by (simp add: blank_def)
  note a = generateStartRoom_rooms [OF start s1 r]
  from a(1) have q: "set [(0, 0)] \<subseteq> set (keysOf wm1)" by simp
  from generationLoop_inv [OF s2 q] have l: "keeps_frame wm1 wm2"
    "grownFrom (set (keysOf wm1)) (set (keysOf wm2))" by simp_all
  from ensureMinimumRooms_inv [OF s3] have e: "keeps_frame wm2 wm3"
    "grownFrom (set (keysOf wm2)) (set (keysOf wm3))" by simp_all
  from keeps_frame_trans [OF l(1) e(1)] have k: "keeps_frame wm1 wm3" .
  from grownFrom_trans [OF l(2) e(2)] a(1) have gr: "grownFrom {(0, 0)} (set (keysOf wm3))"
    by simp
  from k a b have "keyed wm3" "noExitYet wm3" "distinct (keysOf wm3)" "startRoom wm3 = Some (0, 0)"
    "exitRoomsGenerated wm3 = 0" "maxExits (levelConstraints wm3) = 1"
    by (simp_all add: keeps_frame_def blank_def)
  with s4 gr show ?thesis by blast
qed

lemma initialize_blank:
  "blank ((adjustConstraintsForLevel levelNumber (wm\<lparr>seed := s, rng := SeededRandom_new s\<rparr>))
          \<lparr>rooms := [], generatedRooms := 0, exitRoomsGenerated := 0, levelComplete := False\<rparr>)"
  by (simp add: blank_def adjustConstraintsForLevel_def Let_def)

lemma initialize_inv:
  assumes start: "filter tstart catalog \<noteq> []"
    and init: "WorldManager_initialize catalog s levelNumber wm0 = Inr wm"
  shows "\<exists>wm3. wm = generateExitRoom wm3 \<and> keyed wm3 \<and> noExitYet wm3 \<and> distinct (keysOf wm3)
      \<and> grownFrom {(0, 0)} (set (keysOf wm3)) \<and> startRoom wm3 = Some (0, 0)
      \<and> exitRoomsGenerated wm3 = 0 \<and> maxExits (levelConstraints wm3) = 1"
  using generateFiniteLevel_inv [OF start initialize_blank] init
  unfolding WorldManager_initialize_def by blast

lemma map_update_same: "f x = f (xs ! i) \<Longrightarrow> map f (xs[i := x]) = map f xs"
  by (induction xs arbitrary: i) (auto simp: nth_Cons split: nat.splits)

lemma generateExitRoom_keeps:
  "keysOf (generateExitRoom wm) = keysOf wm"
  "roomCoords (generateExitRoom wm) = roomCoords wm"
  "startRoom (generateExitRoom wm) = startRoom wm"
  by (simp_all add: generateExitRoom_def keysOf_def roomCoords_def map_update_same
      case_prod_unfold split: option.splits)

section \<open>A manager and example catalogs\<close>

text \<open>
  The manager as its constructor leaves it; \<open>now\<close> is the clock value that seeds the
  generator there.
\<close>

definition WorldManager_new :: "int \<Rightarrow> WorldManager" where
  "WorldManager_new now =
     \<lparr> rng = SeededRandom_new now, rooms = [], seed = 0, startRoom = None, currentRoom = None,
       levelConstraints =
         \<lparr> maxRooms = 10, maxExits = 1, maxWidth = 4, maxHeight = 4, minRooms = 5 \<rparr>,
       generatedRooms = 0, exitRoomsGenerated = 0,
       levelBounds = \<lparr> minX = - 2, maxX = 2, minY = - 2, maxY = 2 \<rparr>,
       levelComplete = False \<rparr>"

text \<open>
  The two templates of \<open>createFallbackTiles\<close> (dungeonGen.js), and a template with
  an exit on every side as a further input.
\<close>

definition fallback_start :: tile where
  "fallback_start =
     \<lparr> tid = ''start'', tsize = Some (4, 4), tstart = True, texit = False, collision = None,
       exits = [(''E'', (3, 2))],
       prefabs = Some [\<lparr> ptype = ''Player'', ppos = (1, 2), pdir = None,
                         pid = Some ''player_start'' \<rparr>] \<rparr>"

definition fallback_exit :: tile where
  "fallback_exit =
     \<lparr> tid = ''exit'', tsize = Some (4, 4), tstart = False, texit = True, collision = None,
       exits = [(''W'', (0, 2))],
       prefabs = Some [\<lparr> ptype = ''Door'', ppos = (2, 2), pdir = None,
                         pid = Some ''exit_door'' \<rparr>] \<rparr>"

definition cross_tile :: tile where
  "cross_tile =
     \<lparr> tid = ''cross'', tsize = Some (4, 4), tstart = False, texit = False, collision = None,
       exits = [(''N'', (2, 0)), (''E'', (3, 2)), (''S'', (2, 3)), (''W'', (0, 2))],
       prefabs = None \<rparr>"

text \<open>The level of seed 18 and level number 1 over the start template and the cross.\<close>

lemma level18:
  "case WorldManager_initialize [fallback_start, cross_tile] 18 1 (WorldManager_new 0) of
     Inl e \<Rightarrow> False
   | Inr wm \<Rightarrow>
       map (\<lambda>(k, r). (k, (roomX r, roomY r), (worldX r, worldY r), (width r, height r), isExit r))
         (rooms wm)
       = [((0, 0), (0, 0), (0, 0), (256, 256), False),
          ((1, 0), (1, 0), (192, 0), (256, 256), False),
          ((2, 0), (2, 0), (384, 0), (256, 256), False),
          ((1, 1), (1, 1), (640, 256), (256, 256), False),
          ((2, 1), (2, 1), (832, 192), (256, 256), True),
          ((0, 1), (0, 1), (640, 256), (256, 256), False)]"
  by code_simp

section \<open>Connectivity of a generated level\<close>



section \<open>Designation of the exit room\<close>

text \<open>
  C6 as stated fails: over the fallback catalog, whose only template besides the start
  is an exit template, no room is placed besides the start room, and the start room is
  marked as the exit.
\<close>

theorem exit_room_alone:
  "case WorldManager_initialize [fallback_start, fallback_exit] 1 1 (WorldManager_new 0) of
     Inl e \<Rightarrow> False
   | Inr wm \<Rightarrow> startRoom wm = Some (0, 0)
       \<and> map (\<lambda>(k, r). (k, isExit r)) (rooms wm) = [((0, 0), True)]"
  by code_simp

text \<open>
  C6, amended. For a catalog with a start template and a call of \<open>initialize\<close> that
  returns: exactly one room is marked \<open>isExit\<close>; its Manhattan distance from the
  origin is maximal among all placed rooms, and it is the first such room in placement
  order; it is the start room exactly when the start room is the only room.
\<close>

theorem generateExitRoom_farthest:
  assumes start: "filter tstart catalog \<noteq> []"
    and init: "WorldManager_initialize catalog s levelNumber wm0 = Inr wm"
  shows "startRoom wm = Some (0, 0) \<and>
    (\<exists>i < length (rooms wm).
        (\<forall>j < length (rooms wm). isExit (snd (rooms wm ! j)) \<longleftrightarrow> j = i)
      \<and> (\<forall>j < length (rooms wm). manhattan (snd (rooms wm ! j)) \<le> manhattan (snd (rooms wm ! i)))
      \<and> (\<forall>j < i. manhattan (snd (rooms wm ! j)) < manhattan (snd (rooms wm ! i)))
      \<and> (fst (rooms wm ! i) = (0, 0) \<longleftrightarrow> length (rooms wm) = 1))"
proof -
  from initialize_inv [OF start init] obtain wm3 where
    w: "wm = generateExitRoom wm3" "keyed wm3" "noExitYet wm3" "distinct (keysOf wm3)"
    "grownFrom {(0, 0)} (set (keysOf wm3))" "startRoom wm3 = Some (0, 0)"
    "exitRoomsGenerated wm3 = 0" "maxExits (levelConstraints wm3) = 1"
    by blast
  let ?R = "rooms wm3"
  from w(5) have o: "(0, 0) \<in> set (keysOf wm3)" by (auto simp: grownFrom_def)
  then have ne: "?R \<noteq> []" by (auto simp: keysOf_def)
  from w(7,8) have "exitRoomsGenerated wm3 < maxExits (levelConstraints wm3)" by simp
  from generateExitRoom_marks [OF ne this] w(1) obtain i where
    i: "i < length ?R"
    and r: "rooms wm = ?R[i := (fst (?R ! i),
           (snd (?R ! i))\<lparr>isExit := True, roomData := (roomData (snd (?R ! i)))\<lparr>texit := True\<rparr>\<rparr>)]"
    and mx: "\<forall>j < length ?R. manhattan (snd (?R ! j)) \<le> manhattan (snd (?R ! i))"
    and fs: "\<forall>j < i. manhattan (snd (?R ! j)) < manhattan (snd (?R ! i))"
    by auto
  have len: "length (rooms wm) = length ?R" by (simp add: r)
  have same: "manhattan (snd (rooms wm ! j)) = manhattan (snd (?R ! j))"
    "fst (rooms wm ! j) = fst (?R ! j)" if "j < length ?R" for j
    using that by (cases "j = i"; simp add: r manhattan_def)+
  have ex: "isExit (snd (rooms wm ! j)) \<longleftrightarrow> j = i" if j: "j < length ?R" for j
  proof (cases "j = i")
    case True
    with i show ?thesis by (simp add: r)
  next
    case False
    from j have "?R ! j \<in> set ?R" by simp
    with w(3) have "\<not> isExit (snd (?R ! j))" by (auto simp: noExitYet_def list_all_iff)
    with False show ?thesis by (simp add: r)
  qed
  have zero: "manhattan (snd (?R ! j)) = 0 \<longleftrightarrow> fst (?R ! j) = (0, 0)" if "j < length ?R" for j
    using keyed_nth [OF w(2) that] by (auto simp: manhattan_def)
  have nn: "0 \<le> manhattan r" for r by (simp add: manhattan_def)
  have org: "fst (?R ! i) = (0, 0) \<longleftrightarrow> length ?R = 1"
  proof
    assume a: "fst (?R ! i) = (0, 0)"
    show "length ?R = 1"
    proof (rule ccontr)
      assume "length ?R \<noteq> 1"
      with i obtain j where j: "j < length ?R" "j \<noteq> i"
        by (metis One_nat_def Suc_lessI length_greater_0_conv ne nat_neq_iff zero_less_one)
      from w(4) have "distinct (map fst ?R)" by (simp add: keysOf_def)
      with i j have "fst (?R ! j) \<noteq> fst (?R ! i)"
        by (metis distinct_conv_nth length_map nth_map)
      with a zero [OF j(1)] have "manhattan (snd (?R ! j)) \<noteq> 0" by simp
      with nn [of "snd (?R ! j)"] have "0 < manhattan (snd (?R ! j))" by simp
      moreover from a zero [OF i] have "manhattan (snd (?R ! i)) = 0" by simp
      ultimately show False using mx j(1) by force
    qed
  next
    assume l: "length ?R = 1"
    with i have i0: "i = 0" by simp
    from l obtain x where x: "?R = [x]" by (cases ?R) auto
    with o have "fst x = (0, 0)" by (simp add: keysOf_def)
    with x i0 show "fst (?R ! i) = (0, 0)" by simp
  qed
  have "startRoom wm = Some (0, 0)" by (simp add: w(1,6) generateExitRoom_keeps)
  moreover have "\<exists>i < length (rooms wm).
        (\<forall>j < length (rooms wm). isExit (snd (rooms wm ! j)) \<longleftrightarrow> j = i)
      \<and> (\<forall>j < length (rooms wm). manhattan (snd (rooms wm ! j)) \<le> manhattan (snd (rooms wm ! i)))
      \<and> (\<forall>j < i. manhattan (snd (rooms wm ! j)) < manhattan (snd (rooms wm ! i)))
      \<and> (fst (rooms wm ! i) = (0, 0) \<longleftrightarrow> length (rooms wm) = 1)"
  proof (intro exI [of _ i] conjI)
    show "i < length (rooms wm)" using i len by simp
    show "\<forall>j < length (rooms wm). isExit (snd (rooms wm ! j)) \<longleftrightarrow> j = i"
      using ex len by simp
    show "\<forall>j < length (rooms wm). manhattan (snd (rooms wm ! j)) \<le> manhattan (snd (rooms wm ! i))"
      using mx same(1) i len by simp
    show "\<forall>j < i. manhattan (snd (rooms wm ! j)) < manhattan (snd (rooms wm ! i))"
      using fs same(1) i by simp
    show "fst (rooms wm ! i) = (0, 0) \<longleftrightarrow> length (rooms wm) = 1"
      using org same(2) [OF i] len by simp
  qed
  ultimately show ?thesis by blast
qed

theorem generateExitRoom_farthest_witness:
  "filter tstart [fallback_start, cross_tile] \<noteq> []
   \<and> (\<exists>wm. WorldManager_initialize [fallback_start, cross_tile] 18 1 (WorldManager_new 0) = Inr wm
         \<and> map (\<lambda>(k, r). (k, isExit r)) (rooms wm)
             = [((0, 0), False), ((1, 0), False), ((2, 0), False), ((1, 1), False),
                ((2, 1), True), ((0, 1), False)]
         \<and> list_ex (\<lambda>(k, r). isExit r \<and> k \<noteq> (0, 0)) (rooms wm)
         \<and> startRoom wm = Some (0, 0))"
proof -
  have start: "filter tstart [fallback_start, cross_tile] \<noteq> []"
    by (simp add: fallback_start_def)
  from level18 obtain wm where
    init: "WorldManager_initialize [fallback_start, cross_tile] 18 1 (WorldManager_new 0) = Inr wm"
    and rs: "map (\<lambda>(k, r). (k, (roomX r, roomY r), (worldX r, worldY r), (width r, height r), isExit r))
         (rooms wm)
       = [((0, 0), (0, 0), (0, 0), (256, 256), False),
          ((1, 0), (1, 0), (192, 0), (256, 256), False),
          ((2, 0), (2, 0), (384, 0), (256, 256), False),
          ((1, 1), (1, 1), (640, 256), (256, 256), False),
          ((2, 1), (2, 1), (832, 192), (256, 256), True),
          ((0, 1), (0, 1), (640, 256), (256, 256), False)]"
    by (cases "WorldManager_initialize [fallback_start, cross_tile] 18 1 (WorldManager_new 0)")
      simp_all
  have "map (\<lambda>(k, r). (k, isExit r)) (rooms wm) = map (\<lambda>(k, c, w, sz, e). (k, e))
      (map (\<lambda>(k, r). (k, (roomX r, roomY r), (worldX r, worldY r), (width r, height r), isExit r))
         (rooms wm))"
    by (simp add: case_prod_unfold comp_def)
  then have es: "map (\<lambda>(k, r). (k, isExit r)) (rooms wm)
      = [((0, 0), False), ((1, 0), False), ((2, 0), False), ((1, 1), False),
         ((2, 1), True), ((0, 1), False)]"
    unfolding rs by simp
  then have "length (map (\<lambda>(k, r). (k, isExit r)) (rooms wm)) = 6" by simp
  then have l6: "length (rooms wm) = 6" by simp
  from generateExitRoom_farthest [OF start init] l6 obtain i where
    i: "i < length (rooms wm)" "isExit (snd (rooms wm ! i))" "fst (rooms wm ! i) \<noteq> (0, 0)"
    and st: "startRoom wm = Some (0, 0)"
    by auto
  from i(1) have "rooms wm ! i \<in> set (rooms wm)" by simp
  with i(2,3) have "list_ex (\<lambda>(k, r). isExit r \<and> k \<noteq> (0, 0)) (rooms wm)"
    by (auto simp: list_ex_iff case_prod_unfold)
  with start init es st show ?thesis by (intro conjI exI [of _ wm])
qed

section \<open>Determinism of generation\<close>

text \<open>
  \<open>initialize\<close> assigns every field of the manager but \<open>startRoom\<close> and
  \<open>currentRoom\<close>, which \<open>generateStartRoom\<close> assigns when the catalog has a start
  template. No function of the generation reads the two.
\<close>

definition withRefs :: "(int \<times> int) option \<Rightarrow> (int \<times> int) option \<Rightarrow> WorldManager \<Rightarrow> WorldManager" where
  "withRefs a b wm = wm\<lparr>startRoom := a, currentRoom := b\<rparr>"

lemma withRefs_fields [simp]:
  "rng (withRefs a b wm) = rng wm" "rooms (withRefs a b wm) = rooms wm"
  "levelConstraints (withRefs a b wm) = levelConstraints wm"
  "levelBounds (withRefs a b wm) = levelBounds wm"
  "generatedRooms (withRefs a b wm) = generatedRooms wm"
  "exitRoomsGenerated (withRefs a b wm) = exitRoomsGenerated wm"
  by (simp_all add: withRefs_def)

lemma withRefs_updates [simp]:
  "(withRefs a b wm)\<lparr>rng := r\<rparr> = withRefs a b (wm\<lparr>rng := r\<rparr>)"
  "(withRefs a b wm)\<lparr>rooms := rs\<rparr> = withRefs a b (wm\<lparr>rooms := rs\<rparr>)"
  "(withRefs a b wm)\<lparr>generatedRooms := n\<rparr> = withRefs a b (wm\<lparr>generatedRooms := n\<rparr>)"
  "(withRefs a b wm)\<lparr>exitRoomsGenerated := n\<rparr> = withRefs a b (wm\<lparr>exitRoomsGenerated := n\<rparr>)"
  "(withRefs a b wm)\<lparr>rooms := rs, exitRoomsGenerated := n\<rparr>
     = withRefs a b (wm\<lparr>rooms := rs, exitRoomsGenerated := n\<rparr>)"
  by (simp_all add: withRefs_def)

lemma withRefs_reads [simp]:
  "getRoom (withRefs a b wm) = getRoom wm"
  "isWithinLevelBounds (withRefs a b wm) = isWithinLevelBounds wm"
  "getAverageRoomWidth (withRefs a b wm) = getAverageRoomWidth wm"
  "getAverageRoomHeight (withRefs a b wm) = getAverageRoomHeight wm"
  "validateRoomPosition (withRefs a b wm) = validateRoomPosition wm"
  by (simp_all add: fun_eq_iff getRoom_def isWithinLevelBounds_def getAverageRoomWidth_def
      getAverageRoomHeight_def validateRoomPosition_def)

lemma withRefs_reads2 [simp]:
  "getValidAdjacentPositions (withRefs a b wm) = getValidAdjacentPositions wm"
  "hasAdjacentRoom (withRefs a b wm) = hasAdjacentRoom wm"
  "getRequiredConnections (withRefs a b wm) = getRequiredConnections wm"
  "calculateRoomWorldPosition (withRefs a b wm) = calculateRoomWorldPosition wm"
  "availablePositions (withRefs a b wm) = availablePositions wm"
  by (simp_all add: fun_eq_iff getValidAdjacentPositions_def hasAdjacentRoom_def
      getRequiredConnections_def calculateRoomWorldPosition_def availablePositions_def
      cong: option.case_cong)

lemma withRefs_adjust [simp]:
  "adjustAllRoomsPosition ox oy (withRefs a b wm) = withRefs a b (adjustAllRoomsPosition ox oy wm)"
  by (simp add: adjustAllRoomsPosition_def)

lemma withRefs_createRoom [simp]:
  "createRoom rd wx wy x y (withRefs a b wm) = withRefs a b (createRoom rd wx wy x y wm)"
  by (simp add: createRoom_def)

lemma withRefs_optimal:
  "calculateOptimalRoomPosition (withRefs a b wm) x y rd
     = apsnd (withRefs a b) (calculateOptimalRoomPosition wm x y rd)"
  by (simp add: calculateOptimalRoomPosition_def Let_def cong: option.case_cong)

lemma withRefs_generateRoomAt:
  "generateRoomAt catalog x y (withRefs a b wm)
     = map_sum id (apsnd (withRefs a b)) (generateRoomAt catalog x y wm)"
  by (auto simp add: generateRoomAt_def Let_def withRefs_optimal split: prod.splits option.splits)

lemma withRefs_addRooms:
  "addRooms catalog n adj (withRefs a b wm, q, gp)
     = map_sum id (\<lambda>(w, q', gp'). (withRefs a b w, q', gp')) (addRooms catalog n adj (wm, q, gp))"
proof (induction n arbitrary: adj wm q gp)
  case 0
  show ?case by simp
next
  case (Suc n)
  show ?case
    by (auto simp add: withRefs_generateRoomAt Suc.IH split: prod.splits option.splits sum.splits)
qed

lemma withRefs_generationLoop:
  "generationLoop catalog (withRefs a b wm, q, gp)
     = map_sum id (withRefs a b) (generationLoop catalog (wm, q, gp))"
proof (induction catalog "(wm, q, gp)" arbitrary: wm q gp rule: generationLoop.induct)
  case (1 catalog)
  show ?case
  proof (cases "generatedRooms wm < maxRooms (levelConstraints wm) - 1 \<and> length q > 0")
    case False
    then show ?thesis
      by (auto simp add: generationLoop.simps [of catalog "(wm, q, gp)"]
          generationLoop.simps [of catalog "(withRefs a b wm, q, gp)"])
  next
    case True
    let ?adj = "getValidAdjacentPositions wm (hd q) gp"
    obtain k r where kr: "randomInt 1 3 (rng wm) = (k, r)"
      by (cases "randomInt 1 3 (rng wm)")
    let ?n = "min k (min (maxRooms (levelConstraints wm) - 1 - generatedRooms wm)
                       (int (length ?adj)))"
    show ?thesis
    proof (cases "addRooms catalog (nat ?n) ?adj (wm\<lparr>rng := r\<rparr>, tl q, gp)")
      case (Inl e)
      with True kr show ?thesis
        by (simp add: generationLoop.simps [of catalog "(wm, q, gp)"]
            generationLoop.simps [of catalog "(withRefs a b wm, q, gp)"] Let_def withRefs_addRooms)
    next
      case (Inr st')
      obtain wm1 q1 gp1 where st': "st' = (wm1, q1, gp1)" by (cases st') auto
      note ih = "1.hyps" [OF refl refl True refl refl kr [symmetric] refl Inr [unfolded st']]
      from True kr Inr st' ih show ?thesis
        by (simp add: generationLoop.simps [of catalog "(wm, q, gp)"]
            generationLoop.simps [of catalog "(withRefs a b wm, q, gp)"] Let_def withRefs_addRooms)
    qed
  qed
qed

lemma withRefs_topUp:
  "topUp catalog n av (withRefs a b wm) = map_sum id (withRefs a b) (topUp catalog n av wm)"
proof (induction n arbitrary: av wm)
  case 0
  show ?case by simp
next
  case (Suc n)
  show ?case
    by (auto simp add: withRefs_generateRoomAt Suc.IH split: prod.splits option.splits sum.splits)
qed

lemma withRefs_ensureMinimumRooms:
  "ensureMinimumRooms catalog (withRefs a b wm)
     = map_sum id (withRefs a b) (ensureMinimumRooms catalog wm)"
  by (simp add: ensureMinimumRooms_def Let_def withRefs_topUp)

lemma withRefs_generateExitRoom:
  "generateExitRoom (withRefs a b wm) = withRefs a b (generateExitRoom wm)"
  by (simp add: generateExitRoom_def split: option.splits)

lemma withRefs_withRefs [simp]: "withRefs a b (withRefs c d wm) = withRefs a b wm"
  by (simp add: withRefs_def)

lemma withRefs_generateStartRoom:
  "generateStartRoom catalog (withRefs a b wm)
     = (if filter tstart catalog = [] then Inr (withRefs a b wm)
        else generateStartRoom catalog wm)"
  by (simp add: generateStartRoom_def Let_def withRefs_def createRoom_def
      split: prod.splits option.splits)

lemma generateStartRoom_none:
  "filter tstart catalog = [] \<Longrightarrow> generateStartRoom catalog wm = Inr wm"
  by (simp add: generateStartRoom_def)

lemma withRefs_generateFiniteLevel:
  "generateFiniteLevel catalog (withRefs a b wm)
     = (if filter tstart catalog = []
        then map_sum id (withRefs a b) (generateFiniteLevel catalog wm)
        else generateFiniteLevel catalog wm)"
  by (simp add: generateFiniteLevel_def withRefs_generateStartRoom generateStartRoom_none
      withRefs_generationLoop withRefs_ensureMinimumRooms withRefs_generateExitRoom
      split: sum.splits)

text \<open>The state in which \<open>initialize\<close> starts the generation, but for the two references.\<close>

definition resetState :: "int \<Rightarrow> int \<Rightarrow> WorldManager" where
  "resetState s levelNumber =
     \<lparr> rng = SeededRandom_new s, rooms = [], seed = s, startRoom = None, currentRoom = None,
       levelConstraints =
         \<lparr> maxRooms = min (6 + levelNumber div 2) 15, maxExits = 1,
           maxWidth = min (3 + levelNumber div 3) 5, maxHeight = min (3 + levelNumber div 3) 5,
           minRooms = min (4 + levelNumber div 4) 8 \<rparr>,
       generatedRooms = 0, exitRoomsGenerated = 0,
       levelBounds = \<lparr> minX = 0, maxX = min (3 + levelNumber div 3) 5 - 1,
                       minY = 0, maxY = min (3 + levelNumber div 3) 5 - 1 \<rparr>,
       levelComplete = False \<rparr>"

lemma initialize_resetState:
  "WorldManager_initialize catalog s levelNumber wm
     = generateFiniteLevel catalog
         (withRefs (startRoom wm) (currentRoom wm) (resetState s levelNumber))"
  by (cases wm) (simp add: WorldManager_initialize_def adjustConstraintsForLevel_def Let_def
      withRefs_def resetState_def)

lemma map_sum_rooms_withRefs:
  "map_sum id rooms (map_sum id (withRefs a b) r) = map_sum id rooms r"
  by (cases r) simp_all

text \<open>
  C5. Two calls of \<open>initialize\<close> with the same seed and level number over the same
  catalog, on managers in whatever state: both fail with the same error, or both return
  and the room maps are equal (the same grid coordinates in the same order, the same
  template, world origin and exit mark at each); with a start template in the catalog the
  whole managers are equal, the start room included.
\<close>

theorem initialize_deterministic:
  "map_sum id rooms (WorldManager_initialize catalog s levelNumber wm1)
     = map_sum id rooms (WorldManager_initialize catalog s levelNumber wm2)
   \<and> (filter tstart catalog \<noteq> [] \<longrightarrow>
        WorldManager_initialize catalog s levelNumber wm1
          = WorldManager_initialize catalog s levelNumber wm2)"
  by (simp add: initialize_resetState withRefs_generateFiniteLevel map_sum_rooms_withRefs)

text \<open>A manager that an earlier generation has used.\<close>

definition usedManager :: WorldManager where
  "usedManager =
     \<lparr> rng = 77, rooms = [((5, 5), WorldRoom_new cross_tile 0 0 5 5)], seed = 3,
       startRoom = Some (5, 5), currentRoom = Some (5, 5),
       levelConstraints =
         \<lparr> maxRooms = 15, maxExits = 1, maxWidth = 5, maxHeight = 5, minRooms = 8 \<rparr>,
       generatedRooms = 14, exitRoomsGenerated = 1,
       levelBounds = \<lparr> minX = 0, maxX = 4, minY = 0, maxY = 4 \<rparr>,
       levelComplete = True \<rparr>"

theorem initialize_deterministic_witness:
  "filter tstart [fallback_start, cross_tile] \<noteq> []
   \<and> rooms (WorldManager_new 0) \<noteq> rooms usedManager
   \<and> startRoom (WorldManager_new 0) \<noteq> startRoom usedManager
   \<and> WorldManager_initialize [fallback_start, cross_tile] 18 1 (WorldManager_new 0)
       = WorldManager_initialize [fallback_start, cross_tile] 18 1 usedManager"
  using initialize_deterministic [of "[fallback_start, cross_tile]" 18 1 "WorldManager_new 0"
      usedManager]
  by (simp add: fallback_start_def WorldManager_new_def usedManager_def)

section \<open>Overlap of placed rooms\<close>

text \<open>The property of the specification, said over the rooms of a manager.\<close>

definition overlapWidth :: "WorldRoom \<Rightarrow> WorldRoom \<Rightarrow> int" where
  "overlapWidth p q = min (worldX p + width p) (worldX q + width q) - max (worldX p) (worldX q)"

definition overlapHeight :: "WorldRoom \<Rightarrow> WorldRoom \<Rightarrow> int" where
  "overlapHeight p q = min (worldY p + height p) (worldY q + height q) - max (worldY p) (worldY q)"

definition boundsIntersect :: "WorldRoom \<Rightarrow> WorldRoom \<Rightarrow> bool" where
  "boundsIntersect p q \<longleftrightarrow> 0 < overlapWidth p q \<and> 0 < overlapHeight p q"

definition sharedEdgeStrip :: "WorldRoom \<Rightarrow> WorldRoom \<Rightarrow> bool" where
  "sharedEdgeStrip p q \<longleftrightarrow>
     (\<bar>roomX p - roomX q\<bar> = 1 \<and> roomY p = roomY q \<and> overlapWidth p q = TILE_SIZE)
     \<or> (\<bar>roomY p - roomY q\<bar> = 1 \<and> roomX p = roomX q \<and> overlapHeight p q = TILE_SIZE)"

text \<open>
  The pairs of rooms that break the property: different rooms whose bounds intersect
  and that do not share exactly one tile strip as grid neighbours. The property holds
  when there is no such pair.
\<close>

definition overlappingPairs :: "WorldManager \<Rightarrow> ((int \<times> int) \<times> (int \<times> int)) list" where
  "overlappingPairs wm =
     concat (map (\<lambda>(k, p).
               map (\<lambda>(l, q). (k, l))
                 (filter (\<lambda>(l, q). k \<noteq> l \<and> boundsIntersect p q \<and> \<not> sharedEdgeStrip p q)
                    (rooms wm)))
             (rooms wm))"

text \<open>
  C2, evaluated. Seed 18, level number 1, the start template and the cross: the rooms at
  grid \<open>(1, 1)\<close> and \<open>(0, 1)\<close> get the same world origin \<open>(640, 256)\<close>, so their
  bounds coincide, and the room at \<open>(0, 1)\<close> overlaps the room at \<open>(2, 1)\<close>, which
  is not its neighbour.
\<close>

theorem rooms_overlap_seed18:
  "case WorldManager_initialize [fallback_start, cross_tile] 18 1 (WorldManager_new 0) of
     Inl e \<Rightarrow> False
   | Inr wm \<Rightarrow>
       map (\<lambda>(k, r). (k, worldX r, worldY r, width r, height r)) (rooms wm)
         = [((0, 0), 0, 0, 256, 256), ((1, 0), 192, 0, 256, 256), ((2, 0), 384, 0, 256, 256),
            ((1, 1), 640, 256, 256, 256), ((2, 1), 832, 192, 256, 256),
            ((0, 1), 640, 256, 256, 256)]
       \<and> overlappingPairs wm
         = [((1, 1), (0, 1)), ((2, 1), (0, 1)), ((0, 1), (1, 1)), ((0, 1), (2, 1))]"
  by code_simp

end
